theory Spec2Isabelle
  imports Main "HOL-Library.Multiset"
begin

section \<open>The Vault contract (src/app/contract/Vault.sol)\<close>

text \<open>
  A shallow embedding of the Solidity contract \<^verbatim>\<open>Vault\<close>. Storage is a record that
  every external function takes and returns; a revert is a value \<open>Inl err\<close> and
  carries no storage, which is the EVM's rule that a reverted transaction changes
  nothing. \<^verbatim>\<open>uint256\<close> is \<open>nat\<close>; Solidity 0.8 checks every \<open>+\<close>, \<open>-\<close> and \<open>*\<close>
  and reverts with a panic when the result leaves the range, which \<open>checked_add\<close>,
  \<open>checked_sub\<close> and \<open>checked_mul\<close> write out. A Solidity \<^verbatim>\<open>mapping\<close> is a total
  function whose unset entries are zero.

  What the contract asks of the world outside (the caller, the block, the token
  contracts, the recipient of a native-currency call, keccak256) is a field of the
  record \<open>env\<close>. A call into another contract is modelled by its outcome only; the
  callee calling back into the vault is outside the model (deposit and withdraw are
  \<^verbatim>\<open>nonReentrant\<close> in the source). Events are not modelled. Calls to functions that
  are not \<^verbatim>\<open>payable\<close> are taken to carry no value.

  The definitions carry the names of the source; the internal functions
  \<^verbatim>\<open>_selectWinner\<close>, \<^verbatim>\<open>_calculateTotalInterest\<close> and \<^verbatim>\<open>_removeDepositor\<close> lose their
  leading underscore, and a loop becomes a recursive function named after the
  function it is in.
\<close>

subsection \<open>Data\<close>

type_synonym address = nat
type_synonym uint256 = nat

text \<open>Every way a call can abort: \<^verbatim>\<open>require\<close> with its message, an arithmetic panic,
  a revert that bubbles up from a called token, and the custom errors of the
  inherited OpenZeppelin contracts.\<close>

datatype error =
    Revert string
  | Panic
  | CallReverted
  | SafeERC20FailedOperation
  | OwnableUnauthorizedAccount
  | OwnableInvalidOwner

text \<open>What a call to an ERC20 function declared \<^verbatim>\<open>returns (bool)\<close> can do.\<close>

datatype call_outcome = CallReverts | ReturnsTrue | ReturnsFalse | ReturnsNothing

record VaultInfo =
  name :: string
  token :: address
  totalDeposits :: uint256
  creationTime :: uint256
  duration :: uint256
  interestRate :: uint256
  active :: bool
  winnerSelected :: bool
  winner :: address
  depositors :: "address list"
  deposits :: "address \<Rightarrow> uint256"

record storage =
  claimableAmounts :: "uint256 \<Rightarrow> address \<Rightarrow> uint256"
  vaults :: "uint256 \<Rightarrow> VaultInfo"
  vaultCount :: uint256
  adminWallet :: address
  owner :: address

record env =
  msg_sender :: address
  msg_value :: uint256
  block_timestamp :: uint256
  block_prevrandao :: uint256
  keccak256_packed :: "uint256 \<Rightarrow> uint256 \<Rightarrow> uint256 \<Rightarrow> uint256"
  this_balance :: uint256
  erc20_balanceOf_this :: "address \<Rightarrow> uint256 option"
  native_call :: "address \<Rightarrow> uint256 \<Rightarrow> bool"
  erc20_transfer :: "address \<Rightarrow> address \<Rightarrow> uint256 \<Rightarrow> call_outcome"
  erc20_transferFrom :: "address \<Rightarrow> address \<Rightarrow> uint256 \<Rightarrow> call_outcome"

text \<open>
  \<open>keccak256_packed e a b c\<close> is \<^verbatim>\<open>uint256(keccak256(abi.encodePacked(a, b, c)))\<close>;
  \<open>this_balance\<close> is \<^verbatim>\<open>address(this).balance\<close>; \<open>erc20_balanceOf_this e t\<close> is
  \<^verbatim>\<open>IERC20(t).balanceOf(address(this))\<close>, \<open>None\<close> when that call reverts;
  \<open>native_call e to v\<close> is the success flag of \<^verbatim>\<open>to.call{value: v}("")\<close>;
  \<open>erc20_transfer e t to v\<close> is the outcome of \<^verbatim>\<open>IERC20(t).transfer(to, v)\<close> and
  \<open>erc20_transferFrom e t from v\<close> that of
  \<^verbatim>\<open>IERC20(t).transferFrom(from, address(this), v)\<close>.
\<close>

type_synonym payment = "address \<times> uint256"

subsection \<open>Checked arithmetic\<close>

definition UINT256_BOUND :: nat where
  "UINT256_BOUND = 2 ^ 256"

definition checked_add :: "uint256 \<Rightarrow> uint256 \<Rightarrow> error + uint256" where
  "checked_add a b = (if a + b < UINT256_BOUND then Inr (a + b) else Inl Panic)"

definition checked_sub :: "uint256 \<Rightarrow> uint256 \<Rightarrow> error + uint256" where
  "checked_sub a b = (if b \<le> a then Inr (a - b) else Inl Panic)"

definition checked_mul :: "uint256 \<Rightarrow> uint256 \<Rightarrow> error + uint256" where
  "checked_mul a b = (if a * b < UINT256_BOUND then Inr (a * b) else Inl Panic)"

subsection \<open>Construction and administration\<close>

definition empty_vault :: VaultInfo where
  "empty_vault = \<lparr> name = [], token = 0, totalDeposits = 0, creationTime = 0,
     duration = 0, interestRate = 0, active = False, winnerSelected = False,
     winner = 0, depositors = [], deposits = (\<lambda>a. 0) \<rparr>"

text \<open>\<^verbatim>\<open>constructor() Ownable(msg.sender) { adminWallet = msg.sender; }\<close>\<close>

definition constructor :: "address \<Rightarrow> storage" where
  "constructor deployer = \<lparr> claimableAmounts = (\<lambda>i a. 0), vaults = (\<lambda>i. empty_vault),
     vaultCount = 0, adminWallet = deployer, owner = deployer \<rparr>"

definition setAdminWallet :: "env \<Rightarrow> storage \<Rightarrow> address \<Rightarrow> error + storage" where
  "setAdminWallet e s newAdmin =
     (if msg_sender e \<noteq> owner s then Inl OwnableUnauthorizedAccount
      else if \<not> newAdmin \<noteq> 0 then Inl (Revert ''Invalid address'')
      else Inr (s\<lparr>adminWallet := newAdmin\<rparr>))"

text \<open>The two entry points that the contract inherits from OpenZeppelin's
  \<^verbatim>\<open>Ownable\<close>; they write the owner and nothing else.\<close>

definition transferOwnership :: "env \<Rightarrow> storage \<Rightarrow> address \<Rightarrow> error + storage" where
  "transferOwnership e s newOwner =
     (if msg_sender e \<noteq> owner s then Inl OwnableUnauthorizedAccount
      else if newOwner = 0 then Inl OwnableInvalidOwner
      else Inr (s\<lparr>owner := newOwner\<rparr>))"

definition renounceOwnership :: "env \<Rightarrow> storage \<Rightarrow> error + storage" where
  "renounceOwnership e s =
     (if msg_sender e \<noteq> owner s then Inl OwnableUnauthorizedAccount
      else Inr (s\<lparr>owner := 0\<rparr>))"

definition createVault ::
  "env \<Rightarrow> storage \<Rightarrow> string \<Rightarrow> address \<Rightarrow> uint256 \<Rightarrow> uint256 \<Rightarrow> error + storage" where
  "createVault e s vname vtoken vduration vinterestRate =
     (if \<not> msg_sender e = adminWallet s then Inl (Revert ''Caller is not the admin'')
      else if \<not> vinterestRate > 0 then Inl (Revert ''Interest rate must be greater than 0'')
      else case checked_add (vaultCount s) 1 of
        Inl err \<Rightarrow> Inl err
      | Inr count' \<Rightarrow>
          let vaultId = vaultCount s;
              newVault = (vaults s vaultId)\<lparr> name := vname, token := vtoken,
                creationTime := block_timestamp e, duration := vduration,
                interestRate := vinterestRate, active := True \<rparr>
          in Inr (s\<lparr> vaultCount := count', vaults := (vaults s)(vaultId := newVault) \<rparr>))"

subsection \<open>Deposit\<close>

definition deposit :: "env \<Rightarrow> storage \<Rightarrow> uint256 \<Rightarrow> uint256 \<Rightarrow> error + storage" where
  "deposit e s vaultId amount =
     (let vault = vaults s vaultId in
      if \<not> active vault then Inl (Revert ''Vault is not active'')
      else
        (case checked_add (creationTime vault) (duration vault) of
           Inl err \<Rightarrow> Inl err
         | Inr endTime \<Rightarrow>
             if \<not> block_timestamp e < endTime
             then Inl (Revert ''Vault deposit period has ended'')
             else
               (case
                  (if token vault = 0 then
                     (if \<not> msg_value e > 0 then Inl (Revert ''Cannot deposit 0'')
                      else Inr (msg_value e))
                   else
                     (if \<not> amount > 0 then Inl (Revert ''Cannot deposit 0'')
                      else if \<not> msg_value e = 0
                        then Inl (Revert ''Don't send ETH for token deposits'')
                      else
                        (case erc20_transferFrom e (token vault) (msg_sender e) amount of
                           CallReverts \<Rightarrow> Inl CallReverted
                         | ReturnsNothing \<Rightarrow> Inl CallReverted
                         | ReturnsTrue \<Rightarrow> Inr amount
                         | ReturnsFalse \<Rightarrow> Inr amount)))
                of
                  Inl err \<Rightarrow> Inl err
                | Inr depositAmount \<Rightarrow>
                    (let depositors' =
                       (if deposits vault (msg_sender e) = 0
                        then depositors vault @ [msg_sender e] else depositors vault)
                     in
                       (case checked_add (deposits vault (msg_sender e)) depositAmount of
                          Inl err \<Rightarrow> Inl err
                        | Inr deposit' \<Rightarrow>
                            (case checked_add (totalDeposits vault) depositAmount of
                               Inl err \<Rightarrow> Inl err
                             | Inr total' \<Rightarrow>
                                 Inr (s\<lparr> vaults := (vaults s)(vaultId :=
                                   vault\<lparr> depositors := depositors',
                                          deposits := (deposits vault)(msg_sender e := deposit'),
                                          totalDeposits := total' \<rparr>) \<rparr>)))))))"

subsection \<open>Interest\<close>

text \<open>\<^verbatim>\<open>10000 * 365 days\<close>: a day is 86400 seconds.\<close>

definition INTEREST_DENOMINATOR :: nat where
  "INTEREST_DENOMINATOR = 10000 * (365 * 86400)"

text \<open>The expression
  \<^verbatim>\<open>(amount * vault.interestRate * vault.duration) / (10000 * 365 days)\<close>,
  which the source writes out in \<^verbatim>\<open>_calculateTotalInterest\<close>, \<^verbatim>\<open>deleteVault\<close> and
  \<^verbatim>\<open>getDepositorBalance\<close>.\<close>

definition interest_of :: "VaultInfo \<Rightarrow> uint256 \<Rightarrow> error + uint256" where
  "interest_of vault amount =
     (case checked_mul amount (interestRate vault) of
        Inl err \<Rightarrow> Inl err
      | Inr x \<Rightarrow>
          (case checked_mul x (duration vault) of
             Inl err \<Rightarrow> Inl err
           | Inr y \<Rightarrow> Inr (y div INTEREST_DENOMINATOR)))"

fun calculateTotalInterest_loop :: "VaultInfo \<Rightarrow> address list \<Rightarrow> uint256 \<Rightarrow> error + uint256" where
  "calculateTotalInterest_loop vault [] totalInterest = Inr totalInterest"
| "calculateTotalInterest_loop vault (depositor # rest) totalInterest =
     (case interest_of vault (deposits vault depositor) of
        Inl err \<Rightarrow> Inl err
      | Inr i \<Rightarrow>
          (case checked_add totalInterest i of
             Inl err \<Rightarrow> Inl err
           | Inr totalInterest' \<Rightarrow> calculateTotalInterest_loop vault rest totalInterest'))"

definition calculateTotalInterest :: "storage \<Rightarrow> uint256 \<Rightarrow> error + uint256" where
  "calculateTotalInterest s vaultId =
     calculateTotalInterest_loop (vaults s vaultId) (depositors (vaults s vaultId)) 0"

subsection \<open>Winner selection\<close>

text \<open>The loop of \<^verbatim>\<open>_selectWinner\<close> that fills \<^verbatim>\<open>claimableAmounts[_vaultId]\<close>.\<close>

fun setClaimable_loop ::
  "VaultInfo \<Rightarrow> uint256 \<Rightarrow> address list \<Rightarrow> (address \<Rightarrow> uint256) \<Rightarrow> error + (address \<Rightarrow> uint256)" where
  "setClaimable_loop vault totalInterest [] claimable = Inr claimable"
| "setClaimable_loop vault totalInterest (depositor # rest) claimable =
     (let principal = deposits vault depositor in
      if depositor = winner vault then
        (case checked_add principal totalInterest of
           Inl err \<Rightarrow> Inl err
         | Inr c \<Rightarrow> setClaimable_loop vault totalInterest rest (claimable(depositor := c)))
      else setClaimable_loop vault totalInterest rest (claimable(depositor := principal)))"

definition selectWinner :: "env \<Rightarrow> storage \<Rightarrow> uint256 \<Rightarrow> error + storage" where
  "selectWinner e s vaultId =
     (let vault = vaults s vaultId in
      if \<not> \<not> winnerSelected vault then Inl (Revert ''Winner already selected'')
      else if \<not> length (depositors vault) > 0 then Inl (Revert ''No depositors'')
      else
        let randomSeed = keccak256_packed e (block_prevrandao e) vaultId (block_timestamp e);
            winnerIndex = randomSeed mod length (depositors vault);
            vault' = vault\<lparr> winner := depositors vault ! winnerIndex, winnerSelected := True \<rparr>;
            s' = s\<lparr> vaults := (vaults s)(vaultId := vault') \<rparr>
        in case calculateTotalInterest s' vaultId of
             Inl err \<Rightarrow> Inl err
           | Inr totalInterest \<Rightarrow>
               (case setClaimable_loop vault' totalInterest (depositors vault')
                       (claimableAmounts s' vaultId) of
                  Inl err \<Rightarrow> Inl err
                | Inr claimable' \<Rightarrow>
                    Inr (s'\<lparr> claimableAmounts := (claimableAmounts s')(vaultId := claimable') \<rparr>)))"

subsection \<open>Withdraw\<close>

text \<open>\<^verbatim>\<open>_removeDepositor\<close>: the first entry equal to the depositor is overwritten with
  the last entry and the array is popped.\<close>

function removeDepositor_loop :: "address list \<Rightarrow> address \<Rightarrow> nat \<Rightarrow> address list" where
  "removeDepositor_loop ds depositor i =
     (if i < length ds then
        (if ds ! i = depositor then butlast (ds[i := ds ! (length ds - 1)])
         else removeDepositor_loop ds depositor (i + 1))
      else ds)"
  by pat_completeness auto
termination
  by (relation "measure (\<lambda>(ds, depositor, i). length ds - i)") auto

declare removeDepositor_loop.simps [simp del]

definition removeDepositor :: "storage \<Rightarrow> uint256 \<Rightarrow> address \<Rightarrow> storage" where
  "removeDepositor s vaultId depositor =
     (let vault = vaults s vaultId in
      s\<lparr> vaults := (vaults s)(vaultId :=
        vault\<lparr> depositors := removeDepositor_loop (depositors vault) depositor 0 \<rparr>) \<rparr>)"

text \<open>
  \<open>withdraw\<close> follows the blocks that the source marks with comments:
  \<^item> "Auto-select winner if duration ended and no winner yet" is \<open>autoSelectWinner\<close>;
  \<^item> "Calculate claimable amount" is \<open>amountToClaim_of\<close>;
  \<^item> "Check contract has enough funds" is \<open>checkFunds\<close>;
  \<^item> "Update state" is \<open>updateState\<close>;
  \<^item> "Transfer funds" is \<open>transferFunds\<close>, whose token branch is
    \<^verbatim>\<open>SafeERC20.safeTransfer\<close>: it reverts when the token reverts or returns false
    and accepts a token that returns nothing.

  \<open>withdraw\<close> returns the new storage and the amount handed to the caller.
\<close>

definition autoSelectWinner :: "env \<Rightarrow> storage \<Rightarrow> uint256 \<Rightarrow> error + storage" where
  "autoSelectWinner e s vaultId =
     (let vault = vaults s vaultId in
      case checked_add (creationTime vault) (duration vault) of
        Inl err \<Rightarrow> Inl err
      | Inr endTime \<Rightarrow>
          if block_timestamp e \<ge> endTime \<and> \<not> winnerSelected vault
          then selectWinner e s vaultId else Inr s)"

definition amountToClaim_of :: "storage \<Rightarrow> uint256 \<Rightarrow> address \<Rightarrow> uint256" where
  "amountToClaim_of s vaultId sender =
     (let amountToClaim = claimableAmounts s vaultId sender in
      if amountToClaim = 0 then deposits (vaults s vaultId) sender else amountToClaim)"

definition checkFunds :: "env \<Rightarrow> address \<Rightarrow> uint256 \<Rightarrow> error + unit" where
  "checkFunds e vtoken amountToClaim =
     (if vtoken = 0 then
        (if \<not> this_balance e \<ge> amountToClaim
         then Inl (Revert ''Insufficient contract ETH'') else Inr ())
      else
        (case erc20_balanceOf_this e vtoken of
           None \<Rightarrow> Inl CallReverted
         | Some balance \<Rightarrow>
             if \<not> balance \<ge> amountToClaim
             then Inl (Revert ''Insufficient contract tokens'') else Inr ()))"

definition updateState :: "storage \<Rightarrow> uint256 \<Rightarrow> address \<Rightarrow> error + storage" where
  "updateState s vaultId sender =
     (let vault = vaults s vaultId;
          principal = deposits vault sender
      in case checked_sub (totalDeposits vault) principal of
        Inl err \<Rightarrow> Inl err
      | Inr total' \<Rightarrow>
          Inr (removeDepositor
                 (s\<lparr> vaults := (vaults s)(vaultId :=
                        vault\<lparr> deposits := (deposits vault)(sender := 0),
                               totalDeposits := total' \<rparr>),
                     claimableAmounts := (claimableAmounts s)
                       (vaultId := (claimableAmounts s vaultId)(sender := 0)) \<rparr>)
                 vaultId sender))"

definition transferFunds :: "env \<Rightarrow> address \<Rightarrow> address \<Rightarrow> uint256 \<Rightarrow> error + unit" where
  "transferFunds e vtoken sender amountToClaim =
     (if vtoken = 0 then
        (if \<not> native_call e sender amountToClaim
         then Inl (Revert ''Transfer failed'') else Inr ())
      else
        (case erc20_transfer e vtoken sender amountToClaim of
           CallReverts \<Rightarrow> Inl CallReverted
         | ReturnsFalse \<Rightarrow> Inl SafeERC20FailedOperation
         | ReturnsTrue \<Rightarrow> Inr ()
         | ReturnsNothing \<Rightarrow> Inr ()))"

definition withdraw :: "env \<Rightarrow> storage \<Rightarrow> uint256 \<Rightarrow> error + (storage \<times> uint256)" where
  "withdraw e s vaultId =
     (if \<not> active (vaults s vaultId) then Inl (Revert ''Vault inactive'')
      else if \<not> deposits (vaults s vaultId) (msg_sender e) > 0 then Inl (Revert ''No deposit'')
      else
        (case autoSelectWinner e s vaultId of
           Inl err \<Rightarrow> Inl err
         | Inr s1 \<Rightarrow>
             let amountToClaim = amountToClaim_of s1 vaultId (msg_sender e) in
             (case checkFunds e (token (vaults s1 vaultId)) amountToClaim of
                Inl err \<Rightarrow> Inl err
              | Inr _ \<Rightarrow>
                  (case updateState s1 vaultId (msg_sender e) of
                     Inl err \<Rightarrow> Inl err
                   | Inr s2 \<Rightarrow>
                       (case transferFunds e (token (vaults s2 vaultId)) (msg_sender e)
                               amountToClaim of
                          Inl err \<Rightarrow> Inl err
                        | Inr _ \<Rightarrow> Inr (s2, amountToClaim))))))"

subsection \<open>Deletion\<close>

text \<open>
  The loop of \<^verbatim>\<open>deleteVault\<close>. It reads \<^verbatim>\<open>vault.deposits\<close> from storage in every
  round and zeroes the entry it pays, so the vault is threaded through; the array
  \<^verbatim>\<open>vault.depositors\<close> is not written and is walked as it was. The list that is
  returned holds the transfers that were carried out: a native-currency call that
  succeeded, or a token transfer that returned true. \<^verbatim>\<open>IERC20.transfer\<close> is called
  directly here, not through \<^verbatim>\<open>safeTransfer\<close>: a call that returns false is not
  looked at and the loop goes on.
\<close>

fun deleteVault_loop ::
  "env \<Rightarrow> VaultInfo \<Rightarrow> address list \<Rightarrow> payment list \<Rightarrow> error + (VaultInfo \<times> payment list)" where
  "deleteVault_loop e vault [] paid = Inr (vault, paid)"
| "deleteVault_loop e vault (depositor # rest) paid =
     (let amount = deposits vault depositor in
      if amount > 0 then
        let vault' = vault\<lparr> deposits := (deposits vault)(depositor := 0) \<rparr> in
        (case checked_add (creationTime vault') (duration vault') of
           Inl err \<Rightarrow> Inl err
         | Inr endTime \<Rightarrow>
             (case (if block_timestamp e \<ge> endTime then interest_of vault' amount else Inr 0) of
                Inl err \<Rightarrow> Inl err
              | Inr interest \<Rightarrow>
                  (case checked_add amount interest of
                     Inl err \<Rightarrow> Inl err
                   | Inr totalAmount \<Rightarrow>
                       if token vault' = 0 then
                         (if \<not> native_call e depositor totalAmount
                          then Inl (Revert ''Transfer failed'')
                          else deleteVault_loop e vault' rest (paid @ [(depositor, totalAmount)]))
                       else
                         (case erc20_transfer e (token vault') depositor totalAmount of
                            CallReverts \<Rightarrow> Inl CallReverted
                          | ReturnsNothing \<Rightarrow> Inl CallReverted
                          | ReturnsTrue \<Rightarrow>
                              deleteVault_loop e vault' rest (paid @ [(depositor, totalAmount)])
                          | ReturnsFalse \<Rightarrow> deleteVault_loop e vault' rest paid))))
      else deleteVault_loop e vault rest paid)"

definition deleteVault :: "env \<Rightarrow> storage \<Rightarrow> uint256 \<Rightarrow> error + (storage \<times> payment list)" where
  "deleteVault e s vaultId =
     (if \<not> msg_sender e = adminWallet s then Inl (Revert ''Caller is not the admin'')
      else
        let vault = vaults s vaultId in
        if \<not> active vault then Inl (Revert ''Vault is not active'')
        else
          (case deleteVault_loop e (vault\<lparr> active := False \<rparr>) (depositors vault) [] of
             Inl err \<Rightarrow> Inl err
           | Inr (vault', paid) \<Rightarrow>
               Inr (s\<lparr> vaults := (vaults s)(vaultId := vault') \<rparr>, paid)))"

subsection \<open>Funding and views\<close>

definition fundContract :: "env \<Rightarrow> storage \<Rightarrow> error + storage" where
  "fundContract e s =
     (if \<not> msg_sender e = adminWallet s then Inl (Revert ''Caller is not the admin'')
      else Inr s)"

definition fundContractToken :: "env \<Rightarrow> storage \<Rightarrow> address \<Rightarrow> uint256 \<Rightarrow> error + storage" where
  "fundContractToken e s vtoken amount =
     (if \<not> msg_sender e = adminWallet s then Inl (Revert ''Caller is not the admin'')
      else if \<not> vtoken \<noteq> 0 then Inl (Revert ''Invalid token address'')
      else case erc20_transferFrom e vtoken (msg_sender e) amount of
        CallReverts \<Rightarrow> Inl CallReverted
      | ReturnsNothing \<Rightarrow> Inl CallReverted
      | ReturnsTrue \<Rightarrow> Inr s
      | ReturnsFalse \<Rightarrow> Inr s)"

definition receive :: "env \<Rightarrow> storage \<Rightarrow> error + storage" where
  "receive e s = Inl (Revert ''Direct deposits not allowed, use deposit function'')"

definition getVaultInfo ::
  "env \<Rightarrow> storage \<Rightarrow> uint256 \<Rightarrow>
   error + (string \<times> address \<times> uint256 \<times> uint256 \<times> uint256 \<times> uint256 \<times> bool \<times> uint256 \<times> uint256)" where
  "getVaultInfo e s vaultId =
     (let vault = vaults s vaultId in
      case checked_add (creationTime vault) (duration vault) of
        Inl err \<Rightarrow> Inl err
      | Inr endTime \<Rightarrow>
          let currentTime = block_timestamp e;
              timeLeft = (if currentTime \<ge> endTime then 0 else endTime - currentTime)
          in Inr (name vault, token vault, totalDeposits vault, creationTime vault,
                  duration vault, interestRate vault, active vault, timeLeft,
                  length (depositors vault)))"

definition getDepositorBalance ::
  "env \<Rightarrow> storage \<Rightarrow> uint256 \<Rightarrow> address \<Rightarrow> error + (uint256 \<times> uint256)" where
  "getDepositorBalance e s vaultId depositor =
     (let vault = vaults s vaultId;
          principal = deposits vault depositor
      in if principal > 0 then
           (case checked_add (creationTime vault) (duration vault) of
              Inl err \<Rightarrow> Inl err
            | Inr endTime \<Rightarrow>
                if block_timestamp e \<ge> endTime then
                  (case interest_of vault principal of
                     Inl err \<Rightarrow> Inl err
                   | Inr currentInterest \<Rightarrow> Inr (principal, currentInterest))
                else Inr (principal, 0))
         else Inr (principal, 0))"

definition getVaultDepositors :: "storage \<Rightarrow> uint256 \<Rightarrow> address list" where
  "getVaultDepositors s vaultId = depositors (vaults s vaultId)"

definition isDepositor :: "storage \<Rightarrow> uint256 \<Rightarrow> address \<Rightarrow> bool" where
  "isDepositor s vaultId depositor = (deposits (vaults s vaultId) depositor > 0)"

definition getWinnerInfo :: "storage \<Rightarrow> uint256 \<Rightarrow> error + (address \<times> uint256)" where
  "getWinnerInfo s vaultId =
     (let vault = vaults s vaultId in
      if \<not> active vault then Inl (Revert ''Vault is not active'')
      else if \<not> winnerSelected vault then Inl (Revert ''No winner selected yet'')
      else case calculateTotalInterest s vaultId of
        Inl err \<Rightarrow> Inl err
      | Inr totalInterest \<Rightarrow> Inr (winner vault, totalInterest))"

definition hasWinner :: "storage \<Rightarrow> uint256 \<Rightarrow> bool" where
  "hasWinner s vaultId = winnerSelected (vaults s vaultId)"

subsection \<open>Transactions and histories\<close>

text \<open>The state-changing entry points of the contract, the inherited ones included.\<close>

datatype call =
    SetAdminWallet address
  | CreateVault string address uint256 uint256
  | Deposit uint256 uint256
  | Withdraw uint256
  | DeleteVault uint256
  | FundContract
  | FundContractToken address uint256
  | Receive
  | TransferOwnership address
  | RenounceOwnership

fun step :: "env \<Rightarrow> storage \<Rightarrow> call \<Rightarrow> error + storage" where
  "step e s (SetAdminWallet a) = setAdminWallet e s a"
| "step e s (CreateVault n t d r) = createVault e s n t d r"
| "step e s (Deposit i a) = deposit e s i a"
| "step e s (Withdraw i) = map_sum id fst (withdraw e s i)"
| "step e s (DeleteVault i) = map_sum id fst (deleteVault e s i)"
| "step e s FundContract = fundContract e s"
| "step e s (FundContractToken t a) = fundContractToken e s t a"
| "step e s Receive = receive e s"
| "step e s (TransferOwnership a) = transferOwnership e s a"
| "step e s RenounceOwnership = renounceOwnership e s"

text \<open>A history of transactions: one that reverts leaves the storage as it was.\<close>

fun run :: "storage \<Rightarrow> (env \<times> call) list \<Rightarrow> storage" where
  "run s [] = s"
| "run s ((e, c) # rest) =
     (case step e s c of Inl err \<Rightarrow> run s rest | Inr s' \<Rightarrow> run s' rest)"

text \<open>\<open>reachable t s\<close>: the storage \<open>s\<close> is what a history of successful transactions
  leaves behind, starting from the constructor, in blocks whose timestamps never
  decrease, the last of them \<open>t\<close>.\<close>

inductive reachable :: "uint256 \<Rightarrow> storage \<Rightarrow> bool" where
  reachable_init: "reachable t (constructor deployer)"
| reachable_step:
    "reachable t s \<Longrightarrow> t \<le> block_timestamp e \<Longrightarrow> step e s c = Inr s'
       \<Longrightarrow> reachable (block_timestamp e) s'"

subsection \<open>Invariants\<close>

text \<open>The bookkeeping of one vault: the array of depositors lists, once each, exactly
  the addresses with a principal, and \<open>totalDeposits\<close> is the sum of the principals.\<close>

definition listed_exactly :: "VaultInfo \<Rightarrow> bool" where
  "listed_exactly v \<longleftrightarrow>
     distinct (depositors v) \<and> set (depositors v) = {a. deposits v a > 0}"

definition total_is_sum :: "VaultInfo \<Rightarrow> bool" where
  "total_is_sum v \<longleftrightarrow> totalDeposits v = sum_list (map (deposits v) (depositors v))"

text \<open>The interest of a principal as a number, and when the contract can compute it.\<close>

definition floor_interest :: "VaultInfo \<Rightarrow> uint256 \<Rightarrow> nat" where
  "floor_interest v amount = (amount * interestRate v * duration v) div (10000 * (365 * 86400))"

definition interest_fits :: "VaultInfo \<Rightarrow> uint256 \<Rightarrow> bool" where
  "interest_fits v amount \<longleftrightarrow>
     amount * interestRate v < UINT256_BOUND
     \<and> amount * interestRate v * duration v < UINT256_BOUND"

text \<open>What \<^verbatim>\<open>deleteVault\<close> owes a depositor: the principal, and after maturity the
  depositor's own interest.\<close>

definition payout :: "env \<Rightarrow> VaultInfo \<Rightarrow> address \<Rightarrow> nat" where
  "payout e v d = deposits v d +
     (if creationTime v + duration v \<le> block_timestamp e
      then floor_interest v (deposits v d) else 0)"

text \<open>What holds of every vault, with its row \<open>cl\<close> of \<open>claimableAmounts\<close>, in a
  block of time \<open>t\<close>: the bookkeeping is right while the vault is active; a winner
  is drawn only at or after maturity; nothing is claimable before the draw; after
  the draw the interest of the depositors that are left can be computed.\<close>

definition vault_inv :: "uint256 \<Rightarrow> VaultInfo \<Rightarrow> (address \<Rightarrow> uint256) \<Rightarrow> bool" where
  "vault_inv t v cl \<longleftrightarrow>
     (active v \<longrightarrow> listed_exactly v \<and> total_is_sum v)
     \<and> (winnerSelected v \<longrightarrow> creationTime v + duration v \<le> t)
     \<and> (\<not> winnerSelected v \<longrightarrow> (\<forall>a. cl a = 0))
     \<and> (winnerSelected v \<and> active v \<longrightarrow>
           (\<exists>ti. calculateTotalInterest_loop v (depositors v) 0 = Inr ti))"

definition storage_inv :: "uint256 \<Rightarrow> storage \<Rightarrow> bool" where
  "storage_inv t s \<longleftrightarrow>
     (\<forall>i. (vaultCount s \<le> i \<longrightarrow> vaults s i = empty_vault)
        \<and> vault_inv t (vaults s i) (claimableAmounts s i))"

subsection \<open>Example histories\<close>

text \<open>A world in which every outside call succeeds, and one whose token answers
  false to \<^verbatim>\<open>transfer\<close> and \<^verbatim>\<open>transferFrom\<close> instead of reverting.\<close>

definition world :: "address \<Rightarrow> uint256 \<Rightarrow> uint256 \<Rightarrow> env" where
  "world sender val time = \<lparr> msg_sender = sender, msg_value = val, block_timestamp = time,
     block_prevrandao = 0, keccak256_packed = (\<lambda>a b c. a + b + c), this_balance = 100000,
     erc20_balanceOf_this = (\<lambda>t. Some 100000), native_call = (\<lambda>to v. True),
     erc20_transfer = (\<lambda>t to v. ReturnsTrue), erc20_transferFrom = (\<lambda>t f v. ReturnsTrue) \<rparr>"

definition refusing_world :: "address \<Rightarrow> uint256 \<Rightarrow> uint256 \<Rightarrow> env" where
  "refusing_world sender val time = (world sender val time)
     \<lparr> erc20_transfer := (\<lambda>t to v. ReturnsFalse),
       erc20_transferFrom := (\<lambda>t f v. ReturnsFalse) \<rparr>"

text \<open>Address 1 deploys the contract and, at time 100, opens a native-currency vault
  that runs for 365 days (31536000 seconds) at 500 basis points.\<close>

definition one_vault :: storage where
  "one_vault = run (constructor 1) [(world 1 0 100, CreateVault ''pool'' 0 31536000 500)]"

text \<open>Address 2 deposits 1000, then address 3 deposits 500.\<close>

definition one_deposit :: storage where
  "one_deposit = run one_vault [(world 2 1000 200, Deposit 0 0)]"

definition two_deposits :: storage where
  "two_deposits = run one_deposit [(world 3 500 300, Deposit 0 0)]"

text \<open>After maturity address 2 withdraws, which draws the winner.\<close>

definition settled :: storage where
  "settled = run two_deposits [(world 2 0 40000000, Withdraw 0)]"

text \<open>The administrator deletes the vault: before maturity with both deposits in it,
  and after the draw.\<close>

definition deleted :: storage where
  "deleted = run two_deposits [(world 1 0 500, DeleteVault 0)]"

definition settled_deleted :: storage where
  "settled_deleted = run settled [(world 1 0 40000200, DeleteVault 0)]"

text \<open>The same with a vault for the token at address 9, which address 2 funds with
  1000; then the deposit and the deletion again, with a token that answers false.\<close>

definition token_vault :: storage where
  "token_vault = run (constructor 1) [(world 1 0 100, CreateVault ''pool'' 9 31536000 500)]"

definition token_deposit :: storage where
  "token_deposit = run token_vault [(world 2 0 200, Deposit 0 1000)]"

definition unpaid_deposit :: storage where
  "unpaid_deposit = run token_vault [(refusing_world 2 0 200, Deposit 0 1000)]"

definition unpaid_deleted :: storage where
  "unpaid_deleted = run token_deposit [(refusing_world 1 0 500, DeleteVault 0)]"

text \<open>A vault that runs for 365 days at the given rate.\<close>

definition year_vault :: "uint256 \<Rightarrow> VaultInfo" where
  "year_vault rate = empty_vault\<lparr> interestRate := rate, duration := 365 * 86400 \<rparr>"

section \<open>Properties\<close>

subsection \<open>What a successful call leaves behind\<close>

lemma selectWinner_Inr:
  assumes "selectWinner e s i = Inr s1"
  shows "\<exists>w cl. s1 = s\<lparr> vaults := (vaults s)(i :=
                 (vaults s i)\<lparr> winner := w, winnerSelected := True \<rparr>),
               claimableAmounts := (claimableAmounts s)(i := cl) \<rparr>"
    and "\<not> winnerSelected (vaults s i)"
  using assms
  by (auto simp: selectWinner_def Let_def split: if_splits sum.splits)

lemma autoSelectWinner_Inr:
  assumes "autoSelectWinner e s i = Inr s1"
  shows "s1 = s \<or>
         (\<exists>w cl. s1 = s\<lparr> vaults := (vaults s)(i :=
                    (vaults s i)\<lparr> winner := w, winnerSelected := True \<rparr>),
                  claimableAmounts := (claimableAmounts s)(i := cl) \<rparr>
            \<and> \<not> winnerSelected (vaults s i)
            \<and> creationTime (vaults s i) + duration (vaults s i) \<le> block_timestamp e)"
proof (cases "block_timestamp e \<ge> creationTime (vaults s i) + duration (vaults s i)
               \<and> \<not> winnerSelected (vaults s i)")
  case True
  with assms have "selectWinner e s i = Inr s1"
    by (simp add: autoSelectWinner_def Let_def checked_add_def split: if_splits)
  from selectWinner_Inr(1)[OF this] True show ?thesis by blast
next
  case False
  with assms have "s1 = s"
    by (simp add: autoSelectWinner_def Let_def checked_add_def split: if_splits)
  then show ?thesis by simp
qed

lemma updateState_Inr:
  assumes "updateState s i a = Inr s2"
  shows "s2 = s\<lparr> vaults := (vaults s)(i := (vaults s i)\<lparr>
                   deposits := (deposits (vaults s i))(a := 0),
                   totalDeposits := totalDeposits (vaults s i) - deposits (vaults s i) a,
                   depositors := removeDepositor_loop (depositors (vaults s i)) a 0 \<rparr>),
               claimableAmounts := (claimableAmounts s)(i := (claimableAmounts s i)(a := 0)) \<rparr>"
    and "deposits (vaults s i) a \<le> totalDeposits (vaults s i)"
  using assms
  by (auto simp: updateState_def Let_def checked_sub_def removeDepositor_def split: if_splits)

lemma withdraw_Inr:
  assumes "withdraw e s i = Inr (s', paid)"
  obtains s1 where "active (vaults s i)" "deposits (vaults s i) (msg_sender e) > 0"
    "autoSelectWinner e s i = Inr s1" "paid = amountToClaim_of s1 i (msg_sender e)"
    "checkFunds e (token (vaults s1 i)) paid = Inr ()"
    "updateState s1 i (msg_sender e) = Inr s'"
    "transferFunds e (token (vaults s' i)) (msg_sender e) paid = Inr ()"
  using assms
  by (auto simp: withdraw_def Let_def split: if_splits sum.splits)

text \<open>A withdraw that succeeds has handed its amount to the caller: the
  native-currency call to \<^verbatim>\<open>msg.sender\<close> succeeded, or the token's \<^verbatim>\<open>transfer\<close> to
  \<^verbatim>\<open>msg.sender\<close> passed \<^verbatim>\<open>safeTransfer\<close>.\<close>

lemma withdraw_needs_transfer:
  assumes "withdraw e s i = Inr (s', paid)"
  shows "if token (vaults s i) = 0 then native_call e (msg_sender e) paid
         else erc20_transfer e (token (vaults s i)) (msg_sender e) paid
                \<in> {ReturnsTrue, ReturnsNothing}"
proof -
  from assms obtain s1 where sel: "autoSelectWinner e s i = Inr s1"
    and upd: "updateState s1 i (msg_sender e) = Inr s'"
    and tf: "transferFunds e (token (vaults s' i)) (msg_sender e) paid = Inr ()"
    by (rule withdraw_Inr)
  from autoSelectWinner_Inr[OF sel] have "token (vaults s1 i) = token (vaults s i)" by auto
  with updateState_Inr(1)[OF upd] have "token (vaults s' i) = token (vaults s i)" by simp
  with tf show ?thesis
    by (auto simp: transferFunds_def split: if_splits call_outcome.splits)
qed

lemma deposit_Inr:
  assumes "deposit e s i x = Inr s'"
  obtains da where "active (vaults s i)"
    "block_timestamp e < creationTime (vaults s i) + duration (vaults s i)"
    "0 < da" "da = (if token (vaults s i) = 0 then msg_value e else x)"
    "deposits (vaults s i) (msg_sender e) + da < UINT256_BOUND"
    "totalDeposits (vaults s i) + da < UINT256_BOUND"
    "s' = s\<lparr> vaults := (vaults s)(i := (vaults s i)\<lparr>
             depositors := (if deposits (vaults s i) (msg_sender e) = 0
                            then depositors (vaults s i) @ [msg_sender e]
                            else depositors (vaults s i)),
             deposits := (deposits (vaults s i))
                (msg_sender e := deposits (vaults s i) (msg_sender e) + da),
             totalDeposits := totalDeposits (vaults s i) + da \<rparr>) \<rparr>"
  using assms unfolding deposit_def Let_def checked_add_def
  by (auto split: if_splits sum.splits call_outcome.splits)

lemma deposit_frame:
  assumes "deposit e s i x = Inr s'"
  shows "\<exists>ds f t. s' = s\<lparr> vaults := (vaults s)(i :=
           (vaults s i)\<lparr> depositors := ds, deposits := f, totalDeposits := t \<rparr>) \<rparr>"
  using assms by (rule deposit_Inr) blast

lemma deleteVault_loop_Inr:
  "deleteVault_loop e v ds paid = Inr (v', paid')
   \<Longrightarrow> v' = v\<lparr> deposits := (\<lambda>a. if a \<in> set ds then 0 else deposits v a) \<rparr>"
proof (induction ds arbitrary: v paid)
  case Nil
  then show ?case by simp
next
  case (Cons d rest)
  show ?case
  proof (cases "deposits v d > 0")
    case False
    with Cons.prems have "deleteVault_loop e v rest paid = Inr (v', paid')" by simp
    from Cons.IH[OF this] False show ?thesis by (auto simp: fun_eq_iff)
  next
    case True
    let ?v1 = "v\<lparr> deposits := (deposits v)(d := 0) \<rparr>"
    from Cons.prems True obtain paid1 where "deleteVault_loop e ?v1 rest paid1 = Inr (v', paid')"
      by (auto simp: Let_def split: sum.splits if_splits call_outcome.splits)
    from Cons.IH[OF this] show ?thesis by (auto simp: fun_eq_iff)
  qed
qed

lemma deleteVault_Inr:
  assumes "deleteVault e s i = Inr (s', paid)"
  shows "msg_sender e = adminWallet s" "active (vaults s i)"
    "s' = s\<lparr> vaults := (vaults s)(i := (vaults s i)\<lparr> active := False,
             deposits := (\<lambda>a. if a \<in> set (depositors (vaults s i)) then 0
                              else deposits (vaults s i) a) \<rparr>) \<rparr>"
    "deleteVault_loop e ((vaults s i)\<lparr> active := False \<rparr>) (depositors (vaults s i)) []
       = Inr (vaults s' i, paid)"
proof -
  from assms show adm: "msg_sender e = adminWallet s" and act: "active (vaults s i)"
    by (auto simp: deleteVault_def Let_def split: if_splits)
  from assms adm act obtain v' where
    loop: "deleteVault_loop e ((vaults s i)\<lparr> active := False \<rparr>) (depositors (vaults s i)) []
             = Inr (v', paid)"
    and s': "s' = s\<lparr> vaults := (vaults s)(i := v') \<rparr>"
    by (auto simp: deleteVault_def Let_def split: sum.splits)
  from deleteVault_loop_Inr[OF loop] s'
  show "s' = s\<lparr> vaults := (vaults s)(i := (vaults s i)\<lparr> active := False,
             deposits := (\<lambda>a. if a \<in> set (depositors (vaults s i)) then 0
                              else deposits (vaults s i) a) \<rparr>) \<rparr>"
    by (simp cong: if_cong)
  from loop s' show "deleteVault_loop e ((vaults s i)\<lparr> active := False \<rparr>) (depositors (vaults s i)) []
       = Inr (vaults s' i, paid)" by simp
qed

lemma createVault_Inr:
  assumes "createVault e s n t d r = Inr s'"
  shows "msg_sender e = adminWallet s" "0 < r" "vaultCount s + 1 < UINT256_BOUND"
    "s' = s\<lparr> vaultCount := vaultCount s + 1,
             vaults := (vaults s)(vaultCount s := (vaults s (vaultCount s))\<lparr> name := n, token := t,
                creationTime := block_timestamp e, duration := d,
                interestRate := r, active := True \<rparr>) \<rparr>"
  using assms
  by (auto simp: createVault_def Let_def checked_add_def split: if_splits)

subsection \<open>The example histories, evaluated\<close>

lemmas eval_defs = createVault_def deposit_def withdraw_def deleteVault_def checked_add_def
  checked_sub_def checked_mul_def UINT256_BOUND_def Let_def constructor_def empty_vault_def
  world_def refusing_world_def autoSelectWinner_def amountToClaim_of_def checkFunds_def updateState_def
  transferFunds_def removeDepositor_def removeDepositor_loop.simps selectWinner_def
  calculateTotalInterest_def interest_of_def INTEREST_DENOMINATOR_def
  one_vault_def one_deposit_def two_deposits_def token_vault_def token_deposit_def settled_def
  deleted_def settled_deleted_def unpaid_deposit_def unpaid_deleted_def deleteVault_loop.simps

lemma one_vault_eq: "one_vault = \<lparr> claimableAmounts = (\<lambda>i a. 0),
    vaults = (\<lambda>i. empty_vault)(0 := \<lparr> name = ''pool'', token = 0, totalDeposits = 0, creationTime = 100,
     duration = 31536000, interestRate = 500, active = True, winnerSelected = False,
     winner = 0, depositors = [], deposits = (\<lambda>a. 0) \<rparr>), vaultCount = 1, adminWallet = 1, owner = 1 \<rparr>"
  by (simp add: eval_defs)

lemma two_deposits_eq: "two_deposits = \<lparr> claimableAmounts = (\<lambda>i a. 0),
    vaults = (\<lambda>i. empty_vault)(0 := \<lparr> name = ''pool'', token = 0, totalDeposits = 1500, creationTime = 100,
     duration = 31536000, interestRate = 500, active = True, winnerSelected = False,
     winner = 0, depositors = [2, 3], deposits = ((\<lambda>a. 0)(2 := 1000, 3 := 500)) \<rparr>), vaultCount = 1, adminWallet = 1, owner = 1 \<rparr>"
  by (simp add: eval_defs)

lemma token_deposit_eq: "token_deposit = \<lparr> claimableAmounts = (\<lambda>i a. 0),
    vaults = (\<lambda>i. empty_vault)(0 := \<lparr> name = ''pool'', token = 9, totalDeposits = 1000, creationTime = 100,
     duration = 31536000, interestRate = 500, active = True, winnerSelected = False,
     winner = 0, depositors = [2], deposits = ((\<lambda>a. 0)(2 := 1000)) \<rparr>), vaultCount = 1, adminWallet = 1, owner = 1 \<rparr>"
  by (simp add: eval_defs)

lemma mod_length_two: "(n::nat) mod Suc (Suc 0) = n mod 2"
  by (simp add: numeral_2_eq_2)

lemma settled_eq: "settled = \<lparr> claimableAmounts = (\<lambda>i a. 0)(0 := (\<lambda>a. 0)(3 := 500)),
    vaults = (\<lambda>i. empty_vault)(0 := \<lparr> name = ''pool'', token = 0, totalDeposits = 500, creationTime = 100,
     duration = 31536000, interestRate = 500, active = True, winnerSelected = True,
     winner = 2, depositors = [3], deposits = ((\<lambda>a. 0)(3 := 500)) \<rparr>), vaultCount = 1, adminWallet = 1, owner = 1 \<rparr>"
  apply (simp add: settled_def two_deposits_eq)
  apply (simp add: eval_defs mod_length_two)
  apply (auto simp: fun_eq_iff)
  done

lemma one_deposit_eq: "one_deposit = \<lparr> claimableAmounts = (\<lambda>i a. 0),
    vaults = (\<lambda>i. empty_vault)(0 := \<lparr> name = ''pool'', token = 0, totalDeposits = 1000, creationTime = 100,
     duration = 31536000, interestRate = 500, active = True, winnerSelected = False,
     winner = 0, depositors = [2], deposits = ((\<lambda>a. 0)(2 := 1000)) \<rparr>), vaultCount = 1, adminWallet = 1, owner = 1 \<rparr>"
  by (simp add: eval_defs)

lemma deleted_eq: "deleted = \<lparr> claimableAmounts = (\<lambda>i a. 0),
    vaults = (\<lambda>i. empty_vault)(0 := \<lparr> name = ''pool'', token = 0, totalDeposits = 1500, creationTime = 100,
     duration = 31536000, interestRate = 500, active = False, winnerSelected = False,
     winner = 0, depositors = [2, 3], deposits = (\<lambda>a. 0) \<rparr>), vaultCount = 1, adminWallet = 1, owner = 1 \<rparr>"
  apply (simp add: deleted_def two_deposits_eq)
  apply (simp add: eval_defs)
  apply (auto simp: fun_eq_iff)
  done

lemma two_deposits_deleteVault:
  "deleteVault (world 1 0 500) two_deposits 0 = Inr (deleted, [(2, 1000), (3, 500)])"
  apply (simp add: deleted_eq two_deposits_eq)
  apply (simp add: eval_defs)
  apply (auto simp: fun_eq_iff)
  done

lemma settled_deleteVault:
  "deleteVault (world 1 0 40000200) settled 0 = Inr (settled_deleted, [(3, 525)])"
  apply (simp add: settled_deleted_def settled_eq)
  apply (simp add: eval_defs)
  done

lemma settled_deleted_eq: "settled_deleted = \<lparr> claimableAmounts = (\<lambda>i a. 0)(0 := (\<lambda>a. 0)(3 := 500)),
    vaults = (\<lambda>i. empty_vault)(0 := \<lparr> name = ''pool'', token = 0, totalDeposits = 500, creationTime = 100,
     duration = 31536000, interestRate = 500, active = False, winnerSelected = True,
     winner = 2, depositors = [3], deposits = (\<lambda>a. 0) \<rparr>), vaultCount = 1, adminWallet = 1, owner = 1 \<rparr>"
  apply (simp add: settled_deleted_def settled_eq)
  apply (simp add: eval_defs)
  apply (auto simp: fun_eq_iff)
  done

lemma token_vault_eq: "token_vault = \<lparr> claimableAmounts = (\<lambda>i a. 0),
    vaults = (\<lambda>i. empty_vault)(0 := \<lparr> name = ''pool'', token = 9, totalDeposits = 0, creationTime = 100,
     duration = 31536000, interestRate = 500, active = True, winnerSelected = False,
     winner = 0, depositors = [], deposits = (\<lambda>a. 0) \<rparr>), vaultCount = 1, adminWallet = 1, owner = 1 \<rparr>"
  by (simp add: eval_defs)

lemma unpaid_deposit_eq: "unpaid_deposit = token_deposit"
  by (simp add: token_deposit_eq) (simp add: eval_defs)

lemma token_vault_refused_deposit:
  "deposit (refusing_world 2 0 200) token_vault 0 1000 = Inr token_deposit"
  by (simp add: token_deposit_eq token_vault_eq) (simp add: eval_defs)

lemma unpaid_deleted_eq: "unpaid_deleted = \<lparr> claimableAmounts = (\<lambda>i a. 0),
    vaults = (\<lambda>i. empty_vault)(0 := \<lparr> name = ''pool'', token = 9, totalDeposits = 1000, creationTime = 100,
     duration = 31536000, interestRate = 500, active = False, winnerSelected = False,
     winner = 0, depositors = [2], deposits = (\<lambda>a. 0) \<rparr>), vaultCount = 1, adminWallet = 1, owner = 1 \<rparr>"
  apply (simp add: unpaid_deleted_def token_deposit_eq)
  apply (simp add: eval_defs)
  apply (auto simp: fun_eq_iff)
  done

lemma token_deposit_refused_deleteVault:
  "deleteVault (refusing_world 1 0 500) token_deposit 0 = Inr (unpaid_deleted, [])"
  apply (simp add: unpaid_deleted_eq token_deposit_eq)
  apply (simp add: eval_defs)
  apply (auto simp: fun_eq_iff)
  done

subsection \<open>Double withdrawal\<close>

text \<open>
  Claim C9. After one successful withdraw from a vault, a second withdraw by the same
  depositor on the same vault fails with the message "No deposit": the first call
  has zeroed the caller's principal and has left the vault active.
\<close>

theorem second_withdraw_fails:
  assumes "withdraw e s i = Inr (s', paid)" and "msg_sender e' = msg_sender e"
  shows "withdraw e' s' i = Inl (Revert ''No deposit'')"
proof -
  from assms(1) obtain s1 where act: "active (vaults s i)"
    and sel: "autoSelectWinner e s i = Inr s1"
    and upd: "updateState s1 i (msg_sender e) = Inr s'"
    by (rule withdraw_Inr)
  from autoSelectWinner_Inr[OF sel] act have act1: "active (vaults s1 i)" by auto
  from updateState_Inr(1)[OF upd] act1
  have "active (vaults s' i)" and "deposits (vaults s' i) (msg_sender e) = 0" by auto
  then show ?thesis using assms(2) by (simp add: withdraw_def)
qed

lemma two_deposits_withdraw:
  "withdraw (world 2 0 400) two_deposits 0 = Inr (
     \<lparr> claimableAmounts = (\<lambda>i a. 0),
    vaults = (\<lambda>i. empty_vault)(0 := \<lparr> name = ''pool'', token = 0, totalDeposits = 500, creationTime = 100,
     duration = 31536000, interestRate = 500, active = True, winnerSelected = False,
     winner = 0, depositors = [3], deposits = ((\<lambda>a. 0)(3 := 500)) \<rparr>), vaultCount = 1, adminWallet = 1, owner = 1 \<rparr>, 1000)"
  apply (simp add: two_deposits_eq)
  apply (simp add: eval_defs)
  apply (auto simp: fun_eq_iff)
  done

theorem second_withdraw_fails_witness:
  "\<exists>s' paid. withdraw (world 2 0 400) two_deposits 0 = Inr (s', paid)
     \<and> msg_sender (world 2 0 500) = msg_sender (world 2 0 400)
     \<and> withdraw (world 2 0 500) s' 0 = Inl (Revert ''No deposit'')"
proof -
  have snd: "msg_sender (world 2 0 500) = msg_sender (world 2 0 400)"
    by (simp add: world_def)
  from second_withdraw_fails[OF two_deposits_withdraw snd] two_deposits_withdraw snd
  show ?thesis by blast
qed

subsection \<open>Deposits into a native-currency vault\<close>

text \<open>
  Claim C10. In a vault whose token is the zero address, a deposit credits exactly
  \<^verbatim>\<open>msg.value\<close> to the caller's principal and to \<open>totalDeposits\<close>; the argument
  \<^verbatim>\<open>_amount\<close> is not read, so the call does the same for every value of it. The
  deposit goes through whenever the vault is active and still open, the value is not
  zero and the sums fit into \<^verbatim>\<open>uint256\<close>.
\<close>

theorem native_deposit_credits_msg_value:
  assumes "token (vaults s i) = 0"
  shows "deposit e s i x = deposit e s i y
     \<and> (\<forall>s'. deposit e s i x = Inr s' \<longrightarrow>
           deposits (vaults s' i) (msg_sender e)
             = deposits (vaults s i) (msg_sender e) + msg_value e
         \<and> totalDeposits (vaults s' i) = totalDeposits (vaults s i) + msg_value e)
     \<and> (active (vaults s i)
         \<and> block_timestamp e < creationTime (vaults s i) + duration (vaults s i)
         \<and> creationTime (vaults s i) + duration (vaults s i) < UINT256_BOUND
         \<and> 0 < msg_value e
         \<and> deposits (vaults s i) (msg_sender e) + msg_value e < UINT256_BOUND
         \<and> totalDeposits (vaults s i) + msg_value e < UINT256_BOUND
         \<longrightarrow> (\<exists>s'. deposit e s i x = Inr s'))"
proof (intro conjI allI impI)
  show "deposit e s i x = deposit e s i y"
    using assms by (simp add: deposit_def Let_def)
next
  fix s' assume d: "deposit e s i x = Inr s'"
  from d obtain da where "da = (if token (vaults s i) = 0 then msg_value e else x)"
    and s': "s' = s\<lparr> vaults := (vaults s)(i := (vaults s i)\<lparr>
             depositors := (if deposits (vaults s i) (msg_sender e) = 0
                            then depositors (vaults s i) @ [msg_sender e]
                            else depositors (vaults s i)),
             deposits := (deposits (vaults s i))
                (msg_sender e := deposits (vaults s i) (msg_sender e) + da),
             totalDeposits := totalDeposits (vaults s i) + da \<rparr>) \<rparr>"
    by (rule deposit_Inr)
  with assms have da: "da = msg_value e" by simp
  show "deposits (vaults s' i) (msg_sender e)
          = deposits (vaults s i) (msg_sender e) + msg_value e"
    by (simp add: s' da)
  show "totalDeposits (vaults s' i) = totalDeposits (vaults s i) + msg_value e"
    by (simp add: s' da)
next
  assume "active (vaults s i)
         \<and> block_timestamp e < creationTime (vaults s i) + duration (vaults s i)
         \<and> creationTime (vaults s i) + duration (vaults s i) < UINT256_BOUND
         \<and> 0 < msg_value e
         \<and> deposits (vaults s i) (msg_sender e) + msg_value e < UINT256_BOUND
         \<and> totalDeposits (vaults s i) + msg_value e < UINT256_BOUND"
  then show "\<exists>s'. deposit e s i x = Inr s'"
    using assms by (simp add: deposit_def Let_def checked_add_def)
qed

theorem native_deposit_credits_msg_value_witness:
  "token (vaults one_vault 0) = 0
   \<and> deposit (world 2 1000 200) one_vault 0 0 = deposit (world 2 1000 200) one_vault 0 77
   \<and> (\<exists>s'. deposit (world 2 1000 200) one_vault 0 77 = Inr s'
         \<and> deposits (vaults s' 0) 2 = 1000 \<and> totalDeposits (vaults s' 0) = 1000)"
proof -
  have tok: "token (vaults one_vault 0) = 0" by (simp add: one_vault_eq)
  have pre: "active (vaults one_vault 0)
         \<and> block_timestamp (world 2 1000 200)
             < creationTime (vaults one_vault 0) + duration (vaults one_vault 0)
         \<and> creationTime (vaults one_vault 0) + duration (vaults one_vault 0) < UINT256_BOUND
         \<and> 0 < msg_value (world 2 1000 200)
         \<and> deposits (vaults one_vault 0) (msg_sender (world 2 1000 200))
             + msg_value (world 2 1000 200) < UINT256_BOUND
         \<and> totalDeposits (vaults one_vault 0) + msg_value (world 2 1000 200) < UINT256_BOUND"
    by (simp add: one_vault_eq world_def UINT256_BOUND_def)
  have vals: "msg_sender (world 2 1000 200) = 2" "msg_value (world 2 1000 200) = 1000"
    "deposits (vaults one_vault 0) 2 = 0" "totalDeposits (vaults one_vault 0) = 0"
    by (simp_all add: one_vault_eq world_def)
  from native_deposit_credits_msg_value[OF tok, of "world 2 1000 200" 77 0] pre tok vals
  show ?thesis by (metis add_0)
qed

subsection \<open>Interest\<close>

text \<open>
  Claim C7. The interest of one depositor is the floor of
  principal * rate * duration / (10000 * seconds per year), where the rate is in
  basis points and a year has 365 days; the products are taken in \<^verbatim>\<open>uint256\<close>, so
  the value exists when they fit. At 500 basis points over 365 days a principal of
  1000 earns exactly 50; at 1 basis point 9999 earns 0 and 10000 earns 1.
\<close>

theorem interest_is_floor:
  assumes "amount * interestRate v < UINT256_BOUND"
    and "amount * interestRate v * duration v < UINT256_BOUND"
  shows "interest_of v amount
           = Inr ((amount * interestRate v * duration v) div (10000 * (365 * 86400)))"
  using assms by (simp add: interest_of_def checked_mul_def INTEREST_DENOMINATOR_def)

lemma interest_of_overflow:
  "\<not> (amount * interestRate v < UINT256_BOUND
      \<and> amount * interestRate v * duration v < UINT256_BOUND)
   \<Longrightarrow> interest_of v amount = Inl Panic"
  by (auto simp add: interest_of_def checked_mul_def)

theorem interest_is_floor_witness:
  "interest_of (year_vault 500) 1000 = Inr 50
   \<and> interest_of (year_vault 1) 10000 = Inr 1
   \<and> interest_of (year_vault 1) 9999 = Inr 0
   \<and> interest_of (year_vault 1) 19999 = Inr 1"
proof -
  have b: "1000 * interestRate (year_vault 500) < UINT256_BOUND"
    "1000 * interestRate (year_vault 500) * duration (year_vault 500) < UINT256_BOUND"
    "10000 * interestRate (year_vault 1) < UINT256_BOUND"
    "10000 * interestRate (year_vault 1) * duration (year_vault 1) < UINT256_BOUND"
    "9999 * interestRate (year_vault 1) < UINT256_BOUND"
    "9999 * interestRate (year_vault 1) * duration (year_vault 1) < UINT256_BOUND"
    "19999 * interestRate (year_vault 1) < UINT256_BOUND"
    "19999 * interestRate (year_vault 1) * duration (year_vault 1) < UINT256_BOUND"
    by (simp_all add: year_vault_def empty_vault_def UINT256_BOUND_def)
  show ?thesis
    using interest_is_floor[OF b(1) b(2)] interest_is_floor[OF b(3) b(4)]
      interest_is_floor[OF b(5) b(6)] interest_is_floor[OF b(7) b(8)]
    by (simp add: year_vault_def empty_vault_def)
qed

subsection \<open>Winner selection happens once\<close>

lemma step_keeps_winner:
  assumes "step e s c = Inr s'" and "winnerSelected (vaults s i)"
  shows "winnerSelected (vaults s' i) \<and> winner (vaults s' i) = winner (vaults s i)"
proof (cases c)
  case (SetAdminWallet a)
  with assms show ?thesis by (auto simp: setAdminWallet_def split: if_splits)
next
  case (CreateVault n t d r)
  with assms(1) have "createVault e s n t d r = Inr s'" by simp
  from createVault_Inr(4)[OF this] assms(2) show ?thesis by auto
next
  case (Deposit j x)
  with assms(1) have "deposit e s j x = Inr s'" by simp
  from deposit_frame[OF this] assms(2) show ?thesis by auto
next
  case (Withdraw j)
  with assms(1) obtain paid where "withdraw e s j = Inr (s', paid)"
    by (cases "withdraw e s j") auto
  then obtain s1 where sel: "autoSelectWinner e s j = Inr s1"
    and upd: "updateState s1 j (msg_sender e) = Inr s'"
    by (rule withdraw_Inr)
  from autoSelectWinner_Inr[OF sel] assms(2)
  have "winnerSelected (vaults s1 i) \<and> winner (vaults s1 i) = winner (vaults s i)"
    by (cases "j = i") auto
  with updateState_Inr(1)[OF upd] show ?thesis by auto
next
  case (DeleteVault j)
  with assms(1) obtain paid where "deleteVault e s j = Inr (s', paid)"
    by (cases "deleteVault e s j") auto
  from deleteVault_Inr(3)[OF this] assms(2) show ?thesis by auto
next
  case FundContract
  with assms show ?thesis by (auto simp: fundContract_def split: if_splits)
next
  case (FundContractToken t a)
  with assms show ?thesis
    by (auto simp: fundContractToken_def split: if_splits call_outcome.splits)
next
  case Receive
  with assms show ?thesis by (simp add: receive_def)
next
  case (TransferOwnership a)
  with assms show ?thesis by (auto simp: transferOwnership_def split: if_splits)
next
  case RenounceOwnership
  with assms show ?thesis by (auto simp: renounceOwnership_def split: if_splits)
qed

lemma run_keeps_winner:
  "winnerSelected (vaults s i)
   \<Longrightarrow> winnerSelected (vaults (run s h) i) \<and> winner (vaults (run s h) i) = winner (vaults s i)"
proof (induction h arbitrary: s)
  case Nil
  then show ?case by simp
next
  case (Cons ec rest)
  obtain e c where ec: "ec = (e, c)" by (cases ec)
  show ?case
  proof (cases "step e s c")
    case (Inl err)
    with Cons ec show ?thesis by simp
  next
    case (Inr s1)
    from step_keeps_winner[OF Inr Cons.prems]
    have 1: "winnerSelected (vaults s1 i)" and 2: "winner (vaults s1 i) = winner (vaults s i)"
      by simp_all
    from Cons.IH[OF 1] 2 Inr ec show ?thesis by simp
  qed
qed

text \<open>
  Claim C4. Once \<open>winnerSelected\<close> is true for a vault, another call of
  \<^verbatim>\<open>_selectWinner\<close> on it fails with "Winner already selected", and after any
  history of further transactions \<open>winnerSelected\<close> is still true and the stored
  winner is the same address. So the flag goes from false to true at most once.
\<close>

theorem winner_selected_once:
  assumes "winnerSelected (vaults s i)"
  shows "selectWinner e s i = Inl (Revert ''Winner already selected'')
     \<and> winnerSelected (vaults (run s h) i)
     \<and> winner (vaults (run s h) i) = winner (vaults s i)"
  using assms run_keeps_winner[OF assms, of h] by (simp add: selectWinner_def)

theorem winner_selected_once_witness:
  "winnerSelected (vaults settled 0)
   \<and> selectWinner (world 3 0 40000100) settled 0 = Inl (Revert ''Winner already selected'')
   \<and> winnerSelected (vaults (run settled
         [(world 3 0 40000100, Withdraw 0), (world 1 0 40000200, DeleteVault 0)]) 0)
   \<and> winner (vaults (run settled
         [(world 3 0 40000100, Withdraw 0), (world 1 0 40000200, DeleteVault 0)]) 0) = 2"
proof -
  have sel: "winnerSelected (vaults settled 0)" and w: "winner (vaults settled 0) = 2"
    by (simp_all add: settled_eq)
  from winner_selected_once[OF sel, of "world 3 0 40000100"
      "[(world 3 0 40000100, Withdraw 0), (world 1 0 40000200, DeleteVault 0)]"] sel w
  show ?thesis by simp
qed

subsection \<open>Removing a depositor by swap and pop\<close>

text \<open>\<^verbatim>\<open>_removeDepositor\<close> takes out one occurrence of the depositor and nothing else:
  as multisets, the array afterwards is the array before minus that address.\<close>

lemma swap_pop_mset:
  assumes "i < length ds"
  shows "mset (butlast (ds[i := ds ! (length ds - 1)])) = mset ds - {#ds ! i#}"
proof -
  from assms have "ds \<noteq> []" by auto
  then obtain xs l where ds: "ds = xs @ [l]" by (cases ds rule: rev_cases) auto
  show ?thesis
  proof (cases "i = length xs")
    case True
    then show ?thesis by (simp add: ds)
  next
    case False
    with assms ds have i: "i < length xs" by simp
    then have "xs ! i \<in># mset xs" by simp
    with i show ?thesis
      by (simp add: ds list_update_append nth_append mset_update)
  qed
qed

lemma removeDepositor_loop_mset:
  "d \<notin> set (take i ds) \<Longrightarrow> mset (removeDepositor_loop ds d i) = mset ds - {#d#}"
proof (induction ds d i rule: removeDepositor_loop.induct)
  case (1 ds d i)
  show ?case
  proof (cases "i < length ds")
    case False
    with "1.prems" have "d \<notin> set ds" by simp
    with False show ?thesis by (simp add: removeDepositor_loop.simps[of ds d i])
  next
    case True
    show ?thesis
    proof (cases "ds ! i = d")
      case hit: True
      with True swap_pop_mset[OF True] show ?thesis
        by (simp add: removeDepositor_loop.simps[of ds d i])
    next
      case miss: False
      with True "1.prems" have "d \<notin> set (take (i + 1) ds)"
        by (simp add: take_Suc_conv_app_nth)
      from "1.IH"[OF True miss this] True miss show ?thesis
        by (simp add: removeDepositor_loop.simps[of ds d i])
    qed
  qed
qed

lemma removeDepositor_mset: "mset (removeDepositor_loop ds d 0) = mset ds - {#d#}"
  by (rule removeDepositor_loop_mset) simp

lemma removeDepositor_distinct:
  assumes "distinct ds"
  shows "distinct (removeDepositor_loop ds d 0)"
    and "set (removeDepositor_loop ds d 0) = set ds - {d}"
proof -
  let ?r = "removeDepositor_loop ds d 0"
  from assms have cnt: "count (mset ds) a = (if a \<in> set ds then 1 else 0)" for a
    unfolding distinct_count_atmost_1 by blast
  have c: "count (mset ?r) a = (if a \<in> set ds \<and> a \<noteq> d then 1 else 0)" for a
    by (simp add: removeDepositor_mset cnt)
  have mem: "a \<in> set ?r \<longleftrightarrow> a \<in> set ds \<and> a \<noteq> d" for a
  proof -
    have "a \<in> set ?r \<longleftrightarrow> 0 < count (mset ?r) a"
      by (simp only: count_greater_zero_iff set_mset_mset)
    also have "\<dots> \<longleftrightarrow> 0 < (if a \<in> set ds \<and> a \<noteq> d then 1 else 0 :: nat)"
      by (simp only: c)
    also have "\<dots> \<longleftrightarrow> a \<in> set ds \<and> a \<noteq> d"
      by simp
    finally show ?thesis .
  qed
  show "set ?r = set ds - {d}" using mem by blast
  show "distinct ?r"
    unfolding distinct_count_atmost_1 by (simp only: c mem) simp
qed

lemma removeDepositor_sum:
  assumes "distinct ds" and "d \<in> set ds"
  shows "sum_list (map (f(d := 0)) (removeDepositor_loop ds d 0))
           = sum_list (map f ds) - (f d :: nat)"
proof -
  let ?r = "removeDepositor_loop ds d 0"
  have via_mset: "sum_list (map f xs) = sum_mset (image_mset f (mset xs))" for xs
    by (simp only: sum_mset_sum_list[symmetric] mset_map)
  from removeDepositor_distinct(2)[OF assms(1), of d] have "d \<notin> set ?r" by simp
  then have m: "map (f(d := 0)) ?r = map f ?r" by (simp cong: map_cong)
  have "sum_list (map (f(d := 0)) ?r) = sum_mset (image_mset f (mset ?r))"
    by (simp only: m via_mset)
  also have "\<dots> = sum_mset (image_mset f (mset ds - {#d#}))"
    by (simp only: removeDepositor_mset)
  also have "\<dots> = sum_mset (image_mset f (mset ds)) - f d"
    using assms(2) by (simp add: image_mset_Diff sum_mset_diff)
  also have "\<dots> = sum_list (map f ds) - f d"
    by (simp only: via_mset)
  finally show ?thesis .
qed

lemma sum_list_map_upd_notin:
  "d \<notin> set ds \<Longrightarrow> sum_list (map (\<lambda>a. if a = d then y else f a) ds) = sum_list (map f ds)"
  by (induction ds) auto

lemma sum_list_map_upd:
  assumes "distinct ds" and "d \<in> set ds"
  shows "sum_list (map (f(d := f d + x)) ds) = sum_list (map f ds) + (x::nat)"
  using assms by (induction ds) (auto simp: sum_list_map_upd_notin)

subsection \<open>The total interest of a vault\<close>

text \<open>\<^verbatim>\<open>_calculateTotalInterest\<close> returns the sum of the depositors' interests, and it
  returns at all exactly when every single interest and the sum fit into
  \<^verbatim>\<open>uint256\<close>; so a vault whose total could be computed keeps that property when
  depositors leave.\<close>

lemma interest_of_eq:
  "interest_of v a = (if interest_fits v a then Inr (floor_interest v a) else Inl Panic)"
  by (simp add: interest_of_def interest_fits_def floor_interest_def checked_mul_def
      INTEREST_DENOMINATOR_def)

lemma calculateTotalInterest_loop_eq:
  "calculateTotalInterest_loop v ds t =
     (if (\<forall>d \<in> set ds. interest_fits v (deposits v d))
          \<and> (ds \<noteq> [] \<longrightarrow> t + sum_list (map (\<lambda>d. floor_interest v (deposits v d)) ds) < UINT256_BOUND)
      then Inr (t + sum_list (map (\<lambda>d. floor_interest v (deposits v d)) ds))
      else Inl Panic)"
proof (induction ds arbitrary: t)
  case Nil
  show ?case by simp
next
  case (Cons d rest)
  show ?case
  proof (cases "interest_fits v (deposits v d)")
    case False
    then show ?thesis by (simp add: interest_of_eq)
  next
    case fits: True
    show ?thesis
    proof (cases "t + floor_interest v (deposits v d) < UINT256_BOUND")
      case False
      with fits show ?thesis by (simp add: interest_of_eq checked_add_def)
    next
      case True
      with fits show ?thesis
        by (simp add: interest_of_eq checked_add_def Cons.IH add.assoc)
    qed
  qed
qed

lemma calculateTotalInterest_loop_sub:
  assumes "calculateTotalInterest_loop v ds 0 = Inr ti"
    and "set ds' \<subseteq> set ds"
    and "sum_list (map (\<lambda>d. floor_interest v (deposits v d)) ds')
           \<le> sum_list (map (\<lambda>d. floor_interest v (deposits v d)) ds)"
    and "interestRate v' = interestRate v" "duration v' = duration v"
    and "\<forall>d \<in> set ds'. deposits v' d = deposits v d"
  shows "\<exists>ti'. calculateTotalInterest_loop v' ds' 0 = Inr ti'"
proof -
  have same: "floor_interest v' (deposits v' d) = floor_interest v (deposits v d)"
    "interest_fits v' (deposits v' d) = interest_fits v (deposits v d)" if "d \<in> set ds'" for d
    using that assms(4,5,6) by (simp_all add: floor_interest_def interest_fits_def)
  then have sums: "sum_list (map (\<lambda>d. floor_interest v' (deposits v' d)) ds')
      = sum_list (map (\<lambda>d. floor_interest v (deposits v d)) ds')"
    by (simp cong: map_cong)
  from assms(1) have fit: "\<forall>d \<in> set ds. interest_fits v (deposits v d)"
    and bound: "ds \<noteq> [] \<longrightarrow> sum_list (map (\<lambda>d. floor_interest v (deposits v d)) ds) < UINT256_BOUND"
    by (simp_all add: calculateTotalInterest_loop_eq split: if_splits)
  from assms(2) have ne: "ds' \<noteq> [] \<Longrightarrow> ds \<noteq> []" by auto
  have "\<forall>d \<in> set ds'. interest_fits v' (deposits v' d)"
    using fit assms(2) same(2) by blast
  moreover have "ds' \<noteq> [] \<longrightarrow>
      sum_list (map (\<lambda>d. floor_interest v' (deposits v' d)) ds') < UINT256_BOUND"
    using bound ne assms(3) sums by auto
  ultimately show ?thesis by (simp add: calculateTotalInterest_loop_eq)
qed

text \<open>The two places where the source hands out an interest: the total of a vault
  is the sum of the floors, and \<^verbatim>\<open>getDepositorBalance\<close> reports the floor for one
  depositor once the vault has matured.\<close>

lemma calculateTotalInterest_is_sum:
  assumes "calculateTotalInterest s i = Inr ti"
  shows "ti = sum_list (map (\<lambda>d. floor_interest (vaults s i) (deposits (vaults s i) d))
                 (depositors (vaults s i)))"
  using assms
  by (simp add: calculateTotalInterest_def calculateTotalInterest_loop_eq split: if_splits)

lemma getDepositorBalance_interest:
  assumes "0 < deposits (vaults s i) d"
    and "creationTime (vaults s i) + duration (vaults s i) < UINT256_BOUND"
    and "creationTime (vaults s i) + duration (vaults s i) \<le> block_timestamp e"
    and "interest_fits (vaults s i) (deposits (vaults s i) d)"
  shows "getDepositorBalance e s i d
           = Inr (deposits (vaults s i) d, floor_interest (vaults s i) (deposits (vaults s i) d))"
  using assms by (simp add: getDepositorBalance_def Let_def checked_add_def interest_of_eq)

subsection \<open>The invariant, vault by vault\<close>

lemma vault_inv_mono: "vault_inv t v cl \<Longrightarrow> t \<le> t' \<Longrightarrow> vault_inv t' v cl"
  by (auto simp: vault_inv_def)

lemma vault_inv_empty: "vault_inv t empty_vault (\<lambda>a. 0)"
  by (simp add: vault_inv_def empty_vault_def)

lemma vault_inv_create:
  assumes "vault_inv t empty_vault cl"
  shows "vault_inv t' (empty_vault\<lparr> name := n, token := tok, creationTime := ct,
           duration := d, interestRate := r, active := True \<rparr>) cl"
  using assms by (simp add: vault_inv_def empty_vault_def listed_exactly_def total_is_sum_def)

lemma vault_inv_deposit:
  assumes inv: "vault_inv t v cl" and act: "active v"
    and "ts < creationTime v + duration v" and "t \<le> ts" and "0 < da"
  shows "vault_inv ts (v\<lparr> depositors := (if deposits v a = 0 then depositors v @ [a] else depositors v),
           deposits := (deposits v)(a := deposits v a + da),
           totalDeposits := totalDeposits v + da \<rparr>) cl"
proof -
  from inv act have le: "listed_exactly v" and tot: "total_is_sum v"
    and nosel: "\<not> winnerSelected v" and cl: "\<forall>a. cl a = 0"
    using assms(3,4) by (auto simp: vault_inv_def)
  show ?thesis
  proof (cases "deposits v a = 0")
    case True
    with le have notin: "a \<notin> set (depositors v)" by (auto simp: listed_exactly_def)
    from le True notin assms(5) have "listed_exactly (v\<lparr> depositors := depositors v @ [a],
           deposits := (deposits v)(a := deposits v a + da),
           totalDeposits := totalDeposits v + da \<rparr>)"
      by (auto simp: listed_exactly_def)
    moreover from tot True notin have "total_is_sum (v\<lparr> depositors := depositors v @ [a],
           deposits := (deposits v)(a := deposits v a + da),
           totalDeposits := totalDeposits v + da \<rparr>)"
      by (simp add: total_is_sum_def sum_list_map_upd_notin)
    ultimately show ?thesis using True nosel cl by (simp add: vault_inv_def)
  next
    case False
    with le have isin: "a \<in> set (depositors v)" and dist: "distinct (depositors v)"
      by (auto simp: listed_exactly_def)
    from le False isin have "listed_exactly (v\<lparr> depositors := depositors v,
           deposits := (deposits v)(a := deposits v a + da),
           totalDeposits := totalDeposits v + da \<rparr>)"
      by (auto simp: listed_exactly_def)
    moreover from tot sum_list_map_upd[OF dist isin, of "deposits v" da]
    have "total_is_sum (v\<lparr> depositors := depositors v,
           deposits := (deposits v)(a := deposits v a + da),
           totalDeposits := totalDeposits v + da \<rparr>)"
      by (simp add: total_is_sum_def)
    ultimately show ?thesis using False nosel cl by (simp add: vault_inv_def)
  qed
qed

lemma removeDepositor_sum_le:
  assumes "distinct ds"
  shows "sum_list (map g (removeDepositor_loop ds d 0)) \<le> sum_list (map g ds :: nat list)"
proof (cases "d \<in> set ds")
  case True
  let ?r = "removeDepositor_loop ds d 0"
  from removeDepositor_distinct(2)[OF assms, of d] have "d \<notin> set ?r" by simp
  then have "map (g(d := 0)) ?r = map g ?r" by (simp cong: map_cong)
  with removeDepositor_sum[OF assms True, of g] show ?thesis by simp
next
  case False
  then have "mset (removeDepositor_loop ds d 0) = mset ds"
    by (simp add: removeDepositor_mset)
  then have "mset (map g (removeDepositor_loop ds d 0)) = mset (map g ds)"
    by (simp only: mset_map)
  then have "sum_mset (mset (map g (removeDepositor_loop ds d 0))) = sum_mset (mset (map g ds))"
    by (simp only:)
  then show ?thesis by (simp only: sum_mset_sum_list)
qed

lemma vault_inv_select:
  assumes inv: "vault_inv t v cl"
    and "creationTime v + duration v \<le> ts"
    and "\<exists>ti. calculateTotalInterest_loop v (depositors v) 0 = Inr ti"
  shows "vault_inv ts (v\<lparr> winner := w, winnerSelected := True \<rparr>) cl'"
proof -
  from assms(3) obtain ti where "calculateTotalInterest_loop v (depositors v) 0 = Inr ti" ..
  from calculateTotalInterest_loop_sub[OF this, of "depositors v"
      "v\<lparr> winner := w, winnerSelected := True \<rparr>"]
  have "\<exists>ti'. calculateTotalInterest_loop (v\<lparr> winner := w, winnerSelected := True \<rparr>)
          (depositors v) 0 = Inr ti'"
    by simp
  with inv assms(2) show ?thesis
    by (simp add: vault_inv_def listed_exactly_def total_is_sum_def)
qed

lemma vault_inv_updateState:
  assumes inv: "vault_inv t v cl" and act: "active v" and pos: "0 < deposits v a"
  shows "vault_inv t (v\<lparr> deposits := (deposits v)(a := 0),
           totalDeposits := totalDeposits v - deposits v a,
           depositors := removeDepositor_loop (depositors v) a 0 \<rparr>) (cl(a := 0))"
proof -
  let ?v' = "v\<lparr> deposits := (deposits v)(a := 0),
           totalDeposits := totalDeposits v - deposits v a,
           depositors := removeDepositor_loop (depositors v) a 0 \<rparr>"
  from inv act have le: "listed_exactly v" and tot: "total_is_sum v"
    by (auto simp: vault_inv_def)
  from le pos have dist: "distinct (depositors v)" and isin: "a \<in> set (depositors v)"
    by (auto simp: listed_exactly_def)
  have 1: "listed_exactly ?v'"
    using le removeDepositor_distinct[OF dist, of a] by (auto simp: listed_exactly_def)
  have 2: "total_is_sum ?v'"
    using tot removeDepositor_sum[OF dist isin, of "deposits v"] by (simp add: total_is_sum_def)
  have 3: "\<exists>ti. calculateTotalInterest_loop ?v' (depositors ?v') 0 = Inr ti" if "winnerSelected v"
  proof -
    from inv act that obtain ti where ti: "calculateTotalInterest_loop v (depositors v) 0 = Inr ti"
      by (auto simp: vault_inv_def)
    have sub: "set (depositors ?v') \<subseteq> set (depositors v)"
      using removeDepositor_distinct(2)[OF dist, of a] by auto
    have same: "\<forall>d \<in> set (depositors ?v'). deposits ?v' d = deposits v d"
      using removeDepositor_distinct(2)[OF dist, of a] by auto
    have sum: "sum_list (map (\<lambda>d. floor_interest v (deposits v d)) (depositors ?v'))
           \<le> sum_list (map (\<lambda>d. floor_interest v (deposits v d)) (depositors v))"
      using removeDepositor_sum_le[OF dist] by simp
    from calculateTotalInterest_loop_sub[OF ti sub sum _ _ same] show ?thesis by simp
  qed
  from inv 1 2 3 show ?thesis by (auto simp: vault_inv_def)
qed

lemma vault_inv_delete:
  "vault_inv t v cl \<Longrightarrow> vault_inv t (v\<lparr> active := False, deposits := f \<rparr>) cl"
  by (simp add: vault_inv_def)

subsection \<open>The invariant holds in every reachable storage\<close>

lemma selectWinner_interest:
  assumes "selectWinner e s i = Inr s1"
  shows "\<exists>ti. calculateTotalInterest_loop (vaults s i) (depositors (vaults s i)) 0 = Inr ti"
proof -
  from assms obtain w ti where
    "calculateTotalInterest_loop ((vaults s i)\<lparr> winner := w, winnerSelected := True \<rparr>)
       (depositors (vaults s i)) 0 = Inr ti"
    by (auto simp: selectWinner_def Let_def calculateTotalInterest_def split: if_splits sum.splits)
  from calculateTotalInterest_loop_sub[OF this, of "depositors (vaults s i)" "vaults s i"]
  show ?thesis by simp
qed

lemma storage_inv_active: "storage_inv t s \<Longrightarrow> active (vaults s i) \<Longrightarrow> i < vaultCount s"
  by (rule ccontr) (auto simp: storage_inv_def empty_vault_def not_less)

lemma storage_inv_mono: "storage_inv t s \<Longrightarrow> t \<le> t' \<Longrightarrow> storage_inv t' s"
  by (auto simp: storage_inv_def intro: vault_inv_mono)

lemma storage_inv_vault:
  assumes "storage_inv t s" and "i < vaultCount s" and "vault_inv t v' cl'"
  shows "storage_inv t (s\<lparr> vaults := (vaults s)(i := v'),
            claimableAmounts := (claimableAmounts s)(i := cl') \<rparr>)"
  using assms by (auto simp: storage_inv_def)

lemma storage_inv_vault_only:
  assumes "storage_inv t s" and "i < vaultCount s" and "vault_inv t v' (claimableAmounts s i)"
  shows "storage_inv t (s\<lparr> vaults := (vaults s)(i := v') \<rparr>)"
  using assms by (auto simp: storage_inv_def)

lemma autoSelectWinner_inv:
  assumes inv: "storage_inv t s" and le: "t \<le> block_timestamp e"
    and act: "active (vaults s i)" and sel: "autoSelectWinner e s i = Inr s1"
  shows "storage_inv (block_timestamp e) s1"
proof (cases "block_timestamp e \<ge> creationTime (vaults s i) + duration (vaults s i)
               \<and> \<not> winnerSelected (vaults s i)")
  case False
  with sel have "s1 = s"
    by (simp add: autoSelectWinner_def Let_def checked_add_def split: if_splits)
  with storage_inv_mono[OF inv le] show ?thesis by simp
next
  case True
  with sel have sw: "selectWinner e s i = Inr s1"
    by (simp add: autoSelectWinner_def Let_def checked_add_def split: if_splits)
  from selectWinner_Inr(1)[OF sw] obtain w cl where
    s1: "s1 = s\<lparr> vaults := (vaults s)(i := (vaults s i)\<lparr> winner := w, winnerSelected := True \<rparr>),
               claimableAmounts := (claimableAmounts s)(i := cl) \<rparr>"
    by blast
  have inv': "storage_inv (block_timestamp e) s" by (rule storage_inv_mono[OF inv le])
  then have vi: "vault_inv (block_timestamp e) (vaults s i) (claimableAmounts s i)"
    by (simp add: storage_inv_def)
  from True have mat: "creationTime (vaults s i) + duration (vaults s i) \<le> block_timestamp e"
    by simp
  from vault_inv_select[OF vi mat selectWinner_interest[OF sw]]
  have "vault_inv (block_timestamp e) ((vaults s i)\<lparr> winner := w, winnerSelected := True \<rparr>) cl" .
  from storage_inv_vault[OF inv' storage_inv_active[OF inv act] this] show ?thesis
    by (simp add: s1)
qed

lemma step_inv:
  assumes inv: "storage_inv t s" and le: "t \<le> block_timestamp e" and st: "step e s c = Inr s'"
  shows "storage_inv (block_timestamp e) s'"
proof -
  have inv': "storage_inv (block_timestamp e) s" by (rule storage_inv_mono[OF inv le])
  show ?thesis
  proof (cases c)
    case (SetAdminWallet a)
    with st inv' show ?thesis
      by (auto simp: setAdminWallet_def storage_inv_def split: if_splits)
  next
    case (CreateVault n tok d r)
    with st have cv: "createVault e s n tok d r = Inr s'" by simp
    from inv' have emp: "vaults s (vaultCount s) = empty_vault"
      and vi: "vault_inv (block_timestamp e) (vaults s (vaultCount s)) (claimableAmounts s (vaultCount s))"
      unfolding storage_inv_def by blast+
    from vault_inv_create[of "block_timestamp e" "claimableAmounts s (vaultCount s)"] vi emp
    have "vault_inv (block_timestamp e) (empty_vault\<lparr> name := n, token := tok,
            creationTime := block_timestamp e, duration := d, interestRate := r, active := True \<rparr>)
            (claimableAmounts s (vaultCount s))"
      by simp
    with inv' emp show ?thesis
      by (auto simp: createVault_Inr(4)[OF cv] storage_inv_def)
  next
    case (Deposit i x)
    with st have dp: "deposit e s i x = Inr s'" by simp
    from dp obtain da where act: "active (vaults s i)"
      and still_open: "block_timestamp e < creationTime (vaults s i) + duration (vaults s i)"
      and da: "0 < da"
      and s': "s' = s\<lparr> vaults := (vaults s)(i := (vaults s i)\<lparr>
             depositors := (if deposits (vaults s i) (msg_sender e) = 0
                            then depositors (vaults s i) @ [msg_sender e]
                            else depositors (vaults s i)),
             deposits := (deposits (vaults s i))
                (msg_sender e := deposits (vaults s i) (msg_sender e) + da),
             totalDeposits := totalDeposits (vaults s i) + da \<rparr>) \<rparr>"
      by (rule deposit_Inr)
    from inv have vi: "vault_inv t (vaults s i) (claimableAmounts s i)"
      by (simp add: storage_inv_def)
    from storage_inv_vault_only[OF inv' storage_inv_active[OF inv act]
        vault_inv_deposit[OF vi act still_open le da, of "msg_sender e"]]
    show ?thesis by (simp only: s')
  next
    case (Withdraw i)
    with st obtain paid where "withdraw e s i = Inr (s', paid)"
      by (cases "withdraw e s i") auto
    then obtain s1 where act: "active (vaults s i)"
      and pos: "deposits (vaults s i) (msg_sender e) > 0"
      and sel: "autoSelectWinner e s i = Inr s1"
      and upd: "updateState s1 i (msg_sender e) = Inr s'"
      by (rule withdraw_Inr)
    have inv1: "storage_inv (block_timestamp e) s1"
      by (rule autoSelectWinner_inv[OF inv le act sel])
    from autoSelectWinner_Inr[OF sel] act pos
    have act1: "active (vaults s1 i)" and pos1: "deposits (vaults s1 i) (msg_sender e) > 0"
      by auto
    from inv1 have vi: "vault_inv (block_timestamp e) (vaults s1 i) (claimableAmounts s1 i)"
      by (simp add: storage_inv_def)
    from storage_inv_vault[OF inv1 storage_inv_active[OF inv1 act1]
        vault_inv_updateState[OF vi act1 pos1]]
    show ?thesis by (simp only: updateState_Inr(1)[OF upd])
  next
    case (DeleteVault i)
    with st obtain paid where dv: "deleteVault e s i = Inr (s', paid)"
      by (cases "deleteVault e s i") auto
    from inv' have vi: "vault_inv (block_timestamp e) (vaults s i) (claimableAmounts s i)"
      by (simp add: storage_inv_def)
    from storage_inv_vault_only[OF inv' storage_inv_active[OF inv deleteVault_Inr(2)[OF dv]]
        vault_inv_delete[OF vi]]
    show ?thesis by (simp only: deleteVault_Inr(3)[OF dv])
  next
    case FundContract
    with st inv' show ?thesis by (auto simp: fundContract_def split: if_splits)
  next
    case (FundContractToken tok a)
    with st inv' show ?thesis
      by (auto simp: fundContractToken_def split: if_splits call_outcome.splits)
  next
    case Receive
    with st show ?thesis by (simp add: receive_def)
  next
    case (TransferOwnership a)
    with st inv' show ?thesis
      by (auto simp: transferOwnership_def storage_inv_def split: if_splits)
  next
    case RenounceOwnership
    with st inv' show ?thesis
      by (auto simp: renounceOwnership_def storage_inv_def split: if_splits)
  qed
qed

lemma constructor_inv: "storage_inv t (constructor deployer)"
  by (simp add: storage_inv_def constructor_def vault_inv_empty)

lemma reachable_inv: "reachable t s \<Longrightarrow> storage_inv t s"
  by (induction rule: reachable.induct) (auto intro: constructor_inv step_inv)

subsection \<open>The example histories are reachable\<close>

lemma one_vault_reachable: "reachable 100 one_vault"
proof -
  have "step (world 1 0 100) (constructor 1) (CreateVault ''pool'' 0 31536000 500) = Inr one_vault"
    by (simp add: one_vault_eq) (simp add: eval_defs)
  from reachable_step[OF reachable_init[of 0 1] _ this] show ?thesis
    by (simp add: world_def)
qed

lemma one_deposit_reachable: "reachable 200 one_deposit"
proof -
  have "step (world 2 1000 200) one_vault (Deposit 0 0) = Inr one_deposit"
    by (simp add: one_vault_eq one_deposit_eq) (simp add: eval_defs)
  from reachable_step[OF one_vault_reachable _ this] show ?thesis
    by (simp add: world_def)
qed

lemma two_deposits_reachable: "reachable 300 two_deposits"
proof -
  have "step (world 3 500 300) one_deposit (Deposit 0 0) = Inr two_deposits"
    by (simp add: one_deposit_eq two_deposits_eq) (simp add: eval_defs)
  from reachable_step[OF one_deposit_reachable _ this] show ?thesis
    by (simp add: world_def)
qed

lemma two_deposits_late_withdraw:
  "withdraw (world 2 0 40000000) two_deposits 0 = Inr (settled, 1075)"
  apply (simp add: two_deposits_eq settled_eq)
  apply (simp add: eval_defs mod_length_two)
  apply (auto simp: fun_eq_iff)
  done

lemma settled_reachable: "reachable 40000000 settled"
proof -
  have "step (world 2 0 40000000) two_deposits (Withdraw 0) = Inr settled"
    by (simp add: two_deposits_late_withdraw)
  from reachable_step[OF two_deposits_reachable _ this] show ?thesis
    by (simp add: world_def)
qed

subsection \<open>Withdrawing before maturity\<close>

lemma principal_le_total:
  assumes "listed_exactly v" and "total_is_sum v" and "0 < deposits v a"
  shows "deposits v a \<le> totalDeposits v"
proof -
  from assms(1,3) have "a \<in> set (depositors v)" by (auto simp: listed_exactly_def)
  then have "deposits v a \<in> set (map (deposits v) (depositors v))" by simp
  then have "deposits v a \<le> sum_list (map (deposits v) (depositors v))"
    by (rule member_le_sum_list) simp
  with assms(2) show ?thesis by (simp add: total_is_sum_def)
qed

text \<open>
  Claim C6. In a storage that a history of transactions has produced, a depositor
  with a principal who withdraws from an active vault in a block before
  \<open>creationTime + duration\<close> is paid exactly the recorded principal and no interest,
  whoever else is in the vault. Every successful withdraw reports the principal as
  the amount, and that amount has been transferred to the caller: in a
  native-currency vault the call that sends it to \<^verbatim>\<open>msg.sender\<close> succeeded, in a
  token vault the token's \<^verbatim>\<open>transfer\<close> of it to \<^verbatim>\<open>msg.sender\<close> returned true or
  nothing. The withdraw does succeed when the contract holds the principal and the
  transfer of the principal to the caller goes through.
\<close>

theorem early_withdraw_pays_principal:
  assumes reach: "reachable t s" and le: "t \<le> block_timestamp e"
    and act: "active (vaults s i)"
    and pos: "0 < deposits (vaults s i) (msg_sender e)"
    and early: "block_timestamp e < creationTime (vaults s i) + duration (vaults s i)"
  shows "(\<forall>s' paid. withdraw e s i = Inr (s', paid) \<longrightarrow>
            paid = deposits (vaults s i) (msg_sender e)
            \<and> (if token (vaults s i) = 0
                then native_call e (msg_sender e) (deposits (vaults s i) (msg_sender e))
                else erc20_transfer e (token (vaults s i)) (msg_sender e)
                       (deposits (vaults s i) (msg_sender e)) \<in> {ReturnsTrue, ReturnsNothing}))
     \<and> (creationTime (vaults s i) + duration (vaults s i) < UINT256_BOUND
         \<and> (if token (vaults s i) = 0
              then deposits (vaults s i) (msg_sender e) \<le> this_balance e
              else \<exists>b. erc20_balanceOf_this e (token (vaults s i)) = Some b
                        \<and> deposits (vaults s i) (msg_sender e) \<le> b)
         \<and> (if token (vaults s i) = 0
              then native_call e (msg_sender e) (deposits (vaults s i) (msg_sender e))
              else erc20_transfer e (token (vaults s i)) (msg_sender e)
                     (deposits (vaults s i) (msg_sender e)) \<in> {ReturnsTrue, ReturnsNothing})
         \<longrightarrow> (\<exists>s'. withdraw e s i = Inr (s', deposits (vaults s i) (msg_sender e))))"
proof -
  from reachable_inv[OF reach] have vi: "vault_inv t (vaults s i) (claimableAmounts s i)"
    by (simp add: storage_inv_def)
  from vi le early have nosel: "\<not> winnerSelected (vaults s i)"
    by (auto simp: vault_inv_def)
  with vi have cl: "claimableAmounts s i (msg_sender e) = 0"
    by (simp add: vault_inv_def)
  then have amt: "amountToClaim_of s i (msg_sender e) = deposits (vaults s i) (msg_sender e)"
    by (simp add: amountToClaim_of_def)
  have sel: "autoSelectWinner e s i = Inr s1 \<Longrightarrow> s1 = s" for s1
    using early by (simp add: autoSelectWinner_def Let_def checked_add_def split: if_splits)
  show ?thesis
  proof (intro conjI allI impI)
    fix s' paid assume w: "withdraw e s i = Inr (s', paid)"
    then obtain s1 where "autoSelectWinner e s i = Inr s1"
      and "paid = amountToClaim_of s1 i (msg_sender e)"
      by (rule withdraw_Inr)
    with sel amt show paid: "paid = deposits (vaults s i) (msg_sender e)" by auto
    from withdraw_needs_transfer[OF w]
    show "if token (vaults s i) = 0
          then native_call e (msg_sender e) (deposits (vaults s i) (msg_sender e))
          else erc20_transfer e (token (vaults s i)) (msg_sender e)
                 (deposits (vaults s i) (msg_sender e)) \<in> {ReturnsTrue, ReturnsNothing}"
      by (simp only: paid)
  next
    assume ok: "creationTime (vaults s i) + duration (vaults s i) < UINT256_BOUND
         \<and> (if token (vaults s i) = 0
              then deposits (vaults s i) (msg_sender e) \<le> this_balance e
              else \<exists>b. erc20_balanceOf_this e (token (vaults s i)) = Some b
                        \<and> deposits (vaults s i) (msg_sender e) \<le> b)
         \<and> (if token (vaults s i) = 0
              then native_call e (msg_sender e) (deposits (vaults s i) (msg_sender e))
              else erc20_transfer e (token (vaults s i)) (msg_sender e)
                     (deposits (vaults s i) (msg_sender e)) \<in> {ReturnsTrue, ReturnsNothing})"
    then have bound: "creationTime (vaults s i) + duration (vaults s i) < UINT256_BOUND"
      by simp
    from ok have funds:
      "checkFunds e (token (vaults s i)) (deposits (vaults s i) (msg_sender e)) = Inr ()"
      by (auto simp: checkFunds_def split: if_splits)
    from ok have sent:
      "transferFunds e (token (vaults s i)) (msg_sender e)
         (deposits (vaults s i) (msg_sender e)) = Inr ()"
      by (auto simp: transferFunds_def split: if_splits)
    from bound early have sel': "autoSelectWinner e s i = Inr s"
      by (simp add: autoSelectWinner_def Let_def checked_add_def)
    from vi act have "listed_exactly (vaults s i)" "total_is_sum (vaults s i)"
      by (auto simp: vault_inv_def)
    from principal_le_total[OF this pos]
    obtain s2 where upd: "updateState s i (msg_sender e) = Inr s2"
      by (auto simp: updateState_def Let_def checked_sub_def)
    from updateState_Inr(1)[OF upd] have tok: "token (vaults s2 i) = token (vaults s i)"
      by simp
    from act pos sel' amt funds sent upd tok
    have "withdraw e s i = Inr (s2, deposits (vaults s i) (msg_sender e))"
      by (simp add: withdraw_def Let_def)
    then show "\<exists>s'. withdraw e s i = Inr (s', deposits (vaults s i) (msg_sender e))" ..
  qed
qed

theorem early_withdraw_pays_principal_witness:
  "reachable 300 two_deposits \<and> 300 \<le> block_timestamp (world 2 0 400)
   \<and> active (vaults two_deposits 0)
   \<and> 0 < deposits (vaults two_deposits 0) (msg_sender (world 2 0 400))
   \<and> block_timestamp (world 2 0 400)
        < creationTime (vaults two_deposits 0) + duration (vaults two_deposits 0)
   \<and> length (depositors (vaults two_deposits 0)) = 2
   \<and> deposits (vaults two_deposits 0) 2 = 1000
   \<and> token (vaults two_deposits 0) = 0
   \<and> native_call (world 2 0 400) 2 1000
   \<and> (\<exists>s'. withdraw (world 2 0 400) two_deposits 0 = Inr (s', 1000))"
proof -
  have h: "300 \<le> block_timestamp (world 2 0 400)" "active (vaults two_deposits 0)"
    "0 < deposits (vaults two_deposits 0) (msg_sender (world 2 0 400))"
    "block_timestamp (world 2 0 400)
        < creationTime (vaults two_deposits 0) + duration (vaults two_deposits 0)"
    by (simp_all add: two_deposits_eq world_def)
  have v: "deposits (vaults two_deposits 0) (msg_sender (world 2 0 400)) = 1000"
    "length (depositors (vaults two_deposits 0)) = 2" "deposits (vaults two_deposits 0) 2 = 1000"
    "token (vaults two_deposits 0) = 0" "msg_sender (world 2 0 400) = 2"
    by (simp_all add: two_deposits_eq world_def)
  have ok: "creationTime (vaults two_deposits 0) + duration (vaults two_deposits 0) < UINT256_BOUND
     \<and> (if token (vaults two_deposits 0) = 0
          then deposits (vaults two_deposits 0) (msg_sender (world 2 0 400))
                 \<le> this_balance (world 2 0 400)
          else \<exists>b. erc20_balanceOf_this (world 2 0 400) (token (vaults two_deposits 0)) = Some b
                    \<and> deposits (vaults two_deposits 0) (msg_sender (world 2 0 400)) \<le> b)
     \<and> (if token (vaults two_deposits 0) = 0
          then native_call (world 2 0 400) (msg_sender (world 2 0 400))
                 (deposits (vaults two_deposits 0) (msg_sender (world 2 0 400)))
          else erc20_transfer (world 2 0 400) (token (vaults two_deposits 0))
                 (msg_sender (world 2 0 400))
                 (deposits (vaults two_deposits 0) (msg_sender (world 2 0 400)))
                 \<in> {ReturnsTrue, ReturnsNothing})"
    by (simp add: two_deposits_eq world_def UINT256_BOUND_def)
  note main = early_withdraw_pays_principal[OF two_deposits_reachable h]
  from main[THEN conjunct2, THEN mp, OF ok] obtain s' where
    w: "withdraw (world 2 0 400) two_deposits 0
          = Inr (s', deposits (vaults two_deposits 0) (msg_sender (world 2 0 400)))" ..
  from main[THEN conjunct1, THEN spec, THEN spec, THEN mp, OF w]
  have "if token (vaults two_deposits 0) = 0
        then native_call (world 2 0 400) (msg_sender (world 2 0 400))
               (deposits (vaults two_deposits 0) (msg_sender (world 2 0 400)))
        else erc20_transfer (world 2 0 400) (token (vaults two_deposits 0))
               (msg_sender (world 2 0 400))
               (deposits (vaults two_deposits 0) (msg_sender (world 2 0 400)))
               \<in> {ReturnsTrue, ReturnsNothing}"
    by (rule conjunct2)
  then have sent: "native_call (world 2 0 400) 2 1000"
    by (simp only: v if_True)
  from w have ex: "\<exists>s'. withdraw (world 2 0 400) two_deposits 0 = Inr (s', 1000)"
    by (simp only: v) (rule exI, rule refl)
  from two_deposits_reachable h v(2,3,4) sent ex show ?thesis
    by (intro conjI)
qed

subsection \<open>The winner-info query\<close>

text \<open>
  Claim C8 says that \<^verbatim>\<open>getWinnerInfo\<close> fails with the not-yet-settled error exactly
  when \<open>winnerSelected\<close> is false and has no other failure for an existing vault.
  The function first requires the vault to be active. After the draw and a deletion
  the vault has a winner and the query fails with "Vault is not active"; after a
  deletion without a draw the query fails with that message too, not with
  "No winner selected yet".
\<close>

theorem winner_info_of_inactive_vault:
  "0 < vaultCount settled_deleted \<and> winnerSelected (vaults settled_deleted 0)
   \<and> getWinnerInfo settled_deleted 0 = Inl (Revert ''Vault is not active'')
   \<and> 0 < vaultCount deleted \<and> \<not> winnerSelected (vaults deleted 0)
   \<and> getWinnerInfo deleted 0 = Inl (Revert ''Vault is not active'')"
  by (simp add: settled_deleted_eq deleted_eq getWinnerInfo_def)

text \<open>
  Claim C8, amended. In a storage that a history of transactions has produced, the
  query on a vault that is not active fails with "Vault is not active"; on an active
  vault it fails with "No winner selected yet" exactly when \<open>winnerSelected\<close> is
  false, and otherwise it does not fail and returns the stored winner's address as
  the first component. Which interest figure comes with it is left open here.
\<close>

theorem winner_info_of_active_vault:
  assumes reach: "reachable t s"
  shows "(\<not> active (vaults s i) \<longrightarrow> getWinnerInfo s i = Inl (Revert ''Vault is not active''))
     \<and> (active (vaults s i) \<longrightarrow>
          (getWinnerInfo s i = Inl (Revert ''No winner selected yet'')
             \<longleftrightarrow> \<not> winnerSelected (vaults s i))
          \<and> (winnerSelected (vaults s i) \<longrightarrow>
                (\<exists>ti. getWinnerInfo s i = Inr (winner (vaults s i), ti))))"
proof (intro conjI impI)
  show "getWinnerInfo s i = Inl (Revert ''Vault is not active'')" if "\<not> active (vaults s i)"
    using that by (simp add: getWinnerInfo_def)
next
  assume act: "active (vaults s i)"
  from reachable_inv[OF reach] have vi: "vault_inv t (vaults s i) (claimableAmounts s i)"
    by (simp add: storage_inv_def)
  have sel: "\<exists>ti. calculateTotalInterest s i = Inr ti" if "winnerSelected (vaults s i)"
    using vi act that by (simp add: vault_inv_def calculateTotalInterest_def)
  show "getWinnerInfo s i = Inl (Revert ''No winner selected yet'')
          \<longleftrightarrow> \<not> winnerSelected (vaults s i)"
    using act sel by (auto simp: getWinnerInfo_def)
  show "\<exists>ti. getWinnerInfo s i = Inr (winner (vaults s i), ti)"
    if "winnerSelected (vaults s i)"
    using act that sel[OF that] by (auto simp: getWinnerInfo_def)
qed

theorem winner_info_of_active_vault_witness:
  "reachable 40000000 settled \<and> active (vaults settled 0) \<and> winnerSelected (vaults settled 0)
   \<and> map_sum id fst (getWinnerInfo settled 0) = Inr 2
   \<and> reachable 300 two_deposits \<and> active (vaults two_deposits 0)
   \<and> \<not> winnerSelected (vaults two_deposits 0)
   \<and> getWinnerInfo two_deposits 0 = Inl (Revert ''No winner selected yet'')"
proof -
  have a: "active (vaults settled 0)" "winnerSelected (vaults settled 0)"
    "winner (vaults settled 0) = 2"
    by (simp_all add: settled_eq)
  have b: "active (vaults two_deposits 0)" "\<not> winnerSelected (vaults two_deposits 0)"
    by (simp_all add: two_deposits_eq)
  from winner_info_of_active_vault[OF settled_reachable, of 0] a
  have 1: "map_sum id fst (getWinnerInfo settled 0) = Inr 2" by auto
  from winner_info_of_active_vault[OF two_deposits_reachable, of 0] b
  have 2: "getWinnerInfo two_deposits 0 = Inl (Revert ''No winner selected yet'')" by blast
  from 1 2 a b settled_reachable two_deposits_reachable show ?thesis by simp
qed

text \<open>
  The interest figure of the query. The source documents the second result as
  "Total interest won", and the function recomputes \<^verbatim>\<open>_calculateTotalInterest\<close> over
  the depositors that are in the vault at the time of the query. In the example the
  draw awards the winner, address 2, the total interest 75 of both deposits and the
  withdraw pays 1075; the winner has then left the array, and the query reports 25,
  the interest of the depositor that remains.
\<close>

lemma winner_info_interest_is_recomputed:
  "calculateTotalInterest two_deposits 0 = Inr 75
   \<and> withdraw (world 2 0 40000000) two_deposits 0 = Inr (settled, 1075)
   \<and> deposits (vaults two_deposits 0) 2 = 1000
   \<and> active (vaults settled 0) \<and> winnerSelected (vaults settled 0)
   \<and> getWinnerInfo settled 0 = Inr (2, 25)"
proof -
  have 1: "calculateTotalInterest two_deposits 0 = Inr 75"
    by (simp add: two_deposits_eq) (simp add: eval_defs)
  have 2: "getWinnerInfo settled 0 = Inr (2, 25)"
    by (simp add: settled_eq) (simp add: eval_defs getWinnerInfo_def)
  from 1 2 two_deposits_late_withdraw show ?thesis
    by (simp add: two_deposits_eq settled_eq)
qed

subsection \<open>Bookkeeping of a vault\<close>

text \<open>While a vault is active its bookkeeping is right: in every storage that a
  history of \<^verbatim>\<open>createVault\<close>, \<^verbatim>\<open>deposit\<close>, \<^verbatim>\<open>withdraw\<close> and the other calls has
  produced, the array of depositors lists exactly the addresses with a principal,
  once each, and \<open>totalDeposits\<close> is the sum of the principals.\<close>

lemma active_vault_bookkeeping:
  assumes "reachable t s" and "active (vaults s i)"
  shows "listed_exactly (vaults s i) \<and> total_is_sum (vaults s i)"
  using reachable_inv[OF assms(1)] assms(2) by (simp add: storage_inv_def vault_inv_def)

text \<open>\<^verbatim>\<open>deleteVault\<close> zeroes the principal of every listed depositor and writes
  neither \<open>totalDeposits\<close> nor the array of depositors, which \<^verbatim>\<open>withdraw\<close> does
  for the one depositor it pays.\<close>

lemma deleteVault_leaves_stale:
  assumes "deleteVault e s i = Inr (s', paid)"
  shows "totalDeposits (vaults s' i) = totalDeposits (vaults s i)"
    and "depositors (vaults s' i) = depositors (vaults s i)"
    and "\<forall>a \<in> set (depositors (vaults s i)). deposits (vaults s' i) a = 0"
  using deleteVault_Inr(3)[OF assms] by simp_all

text \<open>
  Claim C1 says that \<open>totalDeposits\<close> equals the sum of the depositors' principals
  after every operation, also after \<^verbatim>\<open>deleteVault\<close>. With 1000 and 500 deposited,
  the administrator deletes the vault: both depositors are paid, their principals
  are zero, and \<open>totalDeposits\<close> is still 1500.
\<close>

theorem deleteVault_keeps_totalDeposits:
  "reachable 300 two_deposits
   \<and> total_is_sum (vaults two_deposits 0)
   \<and> deleteVault (world 1 0 500) two_deposits 0 = Inr (deleted, [(2, 1000), (3, 500)])
   \<and> totalDeposits (vaults deleted 0) = 1500
   \<and> sum_list (map (deposits (vaults deleted 0)) (depositors (vaults deleted 0))) = 0
   \<and> \<not> total_is_sum (vaults deleted 0)"
  using two_deposits_reachable two_deposits_deleteVault
  by (simp add: deleted_eq two_deposits_eq total_is_sum_def)

text \<open>
  Claim C3 says that the array of depositors holds exactly the addresses with a
  positive principal after every operation, also after \<^verbatim>\<open>deleteVault\<close>. In the same
  history the array still lists addresses 2 and 3 after the deletion, each with
  principal zero.
\<close>

theorem deleteVault_keeps_depositors:
  "reachable 300 two_deposits
   \<and> listed_exactly (vaults two_deposits 0)
   \<and> deleteVault (world 1 0 500) two_deposits 0 = Inr (deleted, [(2, 1000), (3, 500)])
   \<and> depositors (vaults deleted 0) = [2, 3]
   \<and> deposits (vaults deleted 0) 2 = 0 \<and> deposits (vaults deleted 0) 3 = 0
   \<and> \<not> listed_exactly (vaults deleted 0)"
  using two_deposits_reachable two_deposits_deleteVault
  by (auto simp add: deleted_eq two_deposits_eq listed_exactly_def)

subsection \<open>Transfers that fail\<close>

text \<open>
  Claim C2 says that a failed asset transfer aborts the operation and leaves the
  storage as it was. A token may report failure by returning false. \<^verbatim>\<open>deposit\<close>
  calls \<^verbatim>\<open>transferFrom\<close> and \<^verbatim>\<open>deleteVault\<close> calls \<^verbatim>\<open>transfer\<close> without looking at
  the result, where \<^verbatim>\<open>withdraw\<close> uses \<^verbatim>\<open>safeTransfer\<close>. With such a token the
  deposit of 1000 is credited although nothing was pulled in, and the deletion
  zeroes the principal and deactivates the vault although nothing was paid out.
\<close>

theorem refused_token_transfer_not_rolled_back:
  "erc20_transferFrom (refusing_world 2 0 200) (token (vaults token_vault 0)) 2 1000 = ReturnsFalse
   \<and> deposit (refusing_world 2 0 200) token_vault 0 1000 = Inr token_deposit
   \<and> deposits (vaults token_vault 0) 2 = 0 \<and> totalDeposits (vaults token_vault 0) = 0
   \<and> depositors (vaults token_vault 0) = []
   \<and> deposits (vaults token_deposit 0) 2 = 1000 \<and> totalDeposits (vaults token_deposit 0) = 1000
   \<and> depositors (vaults token_deposit 0) = [2]
   \<and> erc20_transfer (refusing_world 1 0 500) (token (vaults token_deposit 0)) 2 1000 = ReturnsFalse
   \<and> deleteVault (refusing_world 1 0 500) token_deposit 0 = Inr (unpaid_deleted, [])
   \<and> active (vaults token_deposit 0) \<and> \<not> active (vaults unpaid_deleted 0)
   \<and> deposits (vaults unpaid_deleted 0) 2 = 0"
  using token_vault_refused_deposit token_deposit_refused_deleteVault
  by (simp add: token_vault_eq token_deposit_eq unpaid_deleted_eq refusing_world_def world_def)

text \<open>
  Claim C5 says that a successful \<^verbatim>\<open>deleteVault\<close> pays every depositor the
  principal, with interest after maturity, and deactivates the vault. With a token
  that answers false to \<^verbatim>\<open>transfer\<close> the deletion succeeds, the vault is inactive
  and rejects deposits and withdrawals, and the list of payments is empty: the
  depositor with principal 1000 has received nothing.
\<close>

theorem deleteVault_refused_token_pays_nothing:
  "active (vaults token_deposit 0) \<and> depositors (vaults token_deposit 0) = [2]
   \<and> deposits (vaults token_deposit 0) 2 = 1000
   \<and> deleteVault (refusing_world 1 0 500) token_deposit 0 = Inr (unpaid_deleted, [])
   \<and> deposit (world 2 0 600) unpaid_deleted 0 1000 = Inl (Revert ''Vault is not active'')
   \<and> withdraw (world 2 0 600) unpaid_deleted 0 = Inl (Revert ''Vault inactive'')"
  using token_deposit_refused_deleteVault
  by (simp add: token_deposit_eq unpaid_deleted_eq deposit_def withdraw_def)

text \<open>Where a failed transfer does abort the call: \<^verbatim>\<open>withdraw\<close> succeeds only if
  the transfer went through (\<open>withdraw_needs_transfer\<close> above), a token deposit only
  if \<^verbatim>\<open>transferFrom\<close> did not revert, and a deletion of a native-currency vault only
  if every depositor with a principal accepted the call.\<close>

lemma deposit_needs_no_revert:
  assumes "deposit e s i x = Inr s'" and "token (vaults s i) \<noteq> 0"
  shows "erc20_transferFrom e (token (vaults s i)) (msg_sender e) x \<in> {ReturnsTrue, ReturnsFalse}"
  using assms unfolding deposit_def Let_def
  by (auto split: if_splits sum.splits call_outcome.splits)

lemma deleteVault_loop_needs_transfer:
  assumes "deleteVault_loop e v ds paid = Inr (v', paid')" and "token v = 0"
    and "d \<in> set ds" and "0 < deposits v d"
  shows "\<exists>amt. native_call e d amt"
  using assms
proof (induction ds arbitrary: v paid)
  case Nil
  then show ?case by simp
next
  case (Cons x rest)
  show ?case
  proof (cases "0 < deposits v x")
    case False
    with Cons.prems have "deleteVault_loop e v rest paid = Inr (v', paid')" "d \<in> set rest"
      by auto
    from Cons.IH[OF this(1) Cons.prems(2) this(2) Cons.prems(4)] show ?thesis .
  next
    case True
    let ?v1 = "v\<lparr> deposits := (deposits v)(x := 0) \<rparr>"
    from Cons.prems(1,2) True obtain amt paid1 where call: "native_call e x amt"
      and rest: "deleteVault_loop e ?v1 rest paid1 = Inr (v', paid')"
      by (auto simp: Let_def split: sum.splits if_splits)
    show ?thesis
    proof (cases "d = x")
      case True
      with call show ?thesis by blast
    next
      case False
      with Cons.prems have "d \<in> set rest" "0 < deposits ?v1 d" "token ?v1 = 0" by auto
      from Cons.IH[OF rest this(3) this(1) this(2)] show ?thesis .
    qed
  qed
qed

subsection \<open>What a deletion pays\<close>

text \<open>When the vault holds native currency, or its token never answers false, a
  successful \<^verbatim>\<open>deleteVault\<close> pays every listed depositor, in the order of the array,
  the principal plus (at or after maturity) that depositor's own interest.\<close>

lemma payout_upd:
  "d \<noteq> x \<Longrightarrow> payout e (v\<lparr> deposits := (deposits v)(x := 0) \<rparr>) d = payout e v d"
  by (simp add: payout_def floor_interest_def)

lemma deleteVault_loop_step:
  assumes "deleteVault_loop e v (x # rest) paid = Inr (v', paid')" and "0 < deposits v x"
    and "token v = 0 \<or> (\<forall>d amt. erc20_transfer e (token v) d amt \<noteq> ReturnsFalse)"
  shows "deleteVault_loop e (v\<lparr> deposits := (deposits v)(x := 0) \<rparr>) rest
           (paid @ [(x, payout e v x)]) = Inr (v', paid')"
proof -
  let ?v1 = "v\<lparr> deposits := (deposits v)(x := 0) \<rparr>"
  from assms(1,2) obtain endTime where et: "checked_add (creationTime v) (duration v) = Inr endTime"
    by (auto simp: Let_def split: sum.splits)
  then have endTime: "endTime = creationTime v + duration v"
    by (simp add: checked_add_def split: if_splits)
  from assms(1,2) et obtain interest where
    i: "(if block_timestamp e \<ge> endTime then interest_of ?v1 (deposits v x) else Inr 0) = Inr interest"
    by (auto simp: Let_def split: sum.splits)
  have "interest_of ?v1 (deposits v x) = Inr y \<Longrightarrow> y = floor_interest v (deposits v x)" for y
    by (simp add: interest_of_eq floor_interest_def split: if_splits)
  with i endTime have interest: "deposits v x + interest = payout e v x"
    by (auto simp: payout_def split: if_splits)
  from assms(1,2) et i obtain totalAmount where
    ta: "checked_add (deposits v x) interest = Inr totalAmount"
    by (auto simp: Let_def split: sum.splits)
  with interest have total: "totalAmount = payout e v x"
    by (simp add: checked_add_def split: if_splits)
  from assms et i ta show ?thesis
    unfolding total[symmetric]
    by (auto simp: Let_def split: if_splits call_outcome.splits)
qed

lemma deleteVault_loop_paid:
  assumes "deleteVault_loop e v ds paid = Inr (v', paid')" and "distinct ds"
    and "token v = 0 \<or> (\<forall>d amt. erc20_transfer e (token v) d amt \<noteq> ReturnsFalse)"
  shows "paid' = paid @ map (\<lambda>d. (d, payout e v d)) (filter (\<lambda>d. 0 < deposits v d) ds)"
  using assms
proof (induction ds arbitrary: v paid)
  case Nil
  then show ?case by simp
next
  case (Cons x rest)
  from Cons.prems(2) have notin: "x \<notin> set rest" and dist: "distinct rest" by simp_all
  show ?case
  proof (cases "0 < deposits v x")
    case False
    with Cons.prems(1) have "deleteVault_loop e v rest paid = Inr (v', paid')" by simp
    from Cons.IH[OF this dist Cons.prems(3)] False show ?thesis by simp
  next
    case True
    let ?v1 = "v\<lparr> deposits := (deposits v)(x := 0) \<rparr>"
    have tok: "token ?v1 = 0 \<or> (\<forall>d amt. erc20_transfer e (token ?v1) d amt \<noteq> ReturnsFalse)"
      using Cons.prems(3) by simp
    from Cons.IH[OF deleteVault_loop_step[OF Cons.prems(1) True Cons.prems(3)] dist tok]
    have "paid' = (paid @ [(x, payout e v x)])
            @ map (\<lambda>d. (d, payout e ?v1 d)) (filter (\<lambda>d. 0 < deposits ?v1 d) rest)" .
    moreover have "filter (\<lambda>d. 0 < deposits ?v1 d) rest = filter (\<lambda>d. 0 < deposits v d) rest"
      using notin by (auto intro: filter_cong)
    moreover have "map (\<lambda>d. (d, payout e ?v1 d)) (filter (\<lambda>d. 0 < deposits v d) rest)
                    = map (\<lambda>d. (d, payout e v d)) (filter (\<lambda>d. 0 < deposits v d) rest)"
    proof -
      have "payout e ?v1 d = payout e v d" if "d \<in> set rest" for d
      proof -
        from that notin have "d \<noteq> x" by auto
        then show ?thesis by (rule payout_upd)
      qed
      then show ?thesis by (auto intro!: map_cong)
    qed
    ultimately show ?thesis using True by simp
  qed
qed

lemma deleteVault_pays_everyone:
  assumes reach: "reachable t s" and dv: "deleteVault e s i = Inr (s', paid)"
    and tok: "token (vaults s i) = 0
              \<or> (\<forall>d amt. erc20_transfer e (token (vaults s i)) d amt \<noteq> ReturnsFalse)"
  shows "paid = map (\<lambda>d. (d, payout e (vaults s i) d)) (depositors (vaults s i))"
    and "\<not> active (vaults s' i)"
proof -
  from deleteVault_Inr(3)[OF dv] show "\<not> active (vaults s' i)" by simp
  from active_vault_bookkeeping[OF reach deleteVault_Inr(2)[OF dv]]
  have dist: "distinct (depositors (vaults s i))"
    and pos: "\<forall>d \<in> set (depositors (vaults s i)). 0 < deposits (vaults s i) d"
    by (auto simp: listed_exactly_def)
  let ?v = "(vaults s i)\<lparr> active := False \<rparr>"
  from tok have tok': "token ?v = 0 \<or> (\<forall>d amt. erc20_transfer e (token ?v) d amt \<noteq> ReturnsFalse)"
    by simp
  from deleteVault_loop_paid[OF deleteVault_Inr(4)[OF dv] dist tok']
  have "paid = map (\<lambda>d. (d, payout e ?v d)) (filter (\<lambda>d. 0 < deposits ?v d) (depositors (vaults s i)))"
    by simp
  moreover have "filter (\<lambda>d. 0 < deposits ?v d) (depositors (vaults s i)) = depositors (vaults s i)"
    using pos by (simp add: filter_id_conv)
  moreover have "payout e ?v d = payout e (vaults s i) d" for d
    by (simp add: payout_def floor_interest_def)
  ultimately show "paid = map (\<lambda>d. (d, payout e (vaults s i) d)) (depositors (vaults s i))"
    by simp
qed

text \<open>A deleted vault stays closed: no call sets \<open>active\<close> again, and deposit and
  withdraw on it fail with their vault-inactive messages after any further history.\<close>

lemma inactive_rejects:
  assumes "\<not> active (vaults s i)"
  shows "deposit e s i x = Inl (Revert ''Vault is not active'')"
    and "withdraw e s i = Inl (Revert ''Vault inactive'')"
  using assms by (simp_all add: deposit_def withdraw_def)

lemma step_keeps_inactive:
  assumes "step e s c = Inr s'" and "i < vaultCount s" and "\<not> active (vaults s i)"
  shows "i < vaultCount s' \<and> \<not> active (vaults s' i)"
proof (cases c)
  case (SetAdminWallet a)
  with assms show ?thesis by (auto simp: setAdminWallet_def split: if_splits)
next
  case (CreateVault n t d r)
  with assms(1) have "createVault e s n t d r = Inr s'" by simp
  from createVault_Inr(4)[OF this] assms(2,3) show ?thesis by (auto split: if_splits)
next
  case (Deposit j x)
  with assms(1) have "deposit e s j x = Inr s'" by simp
  from deposit_frame[OF this] assms(2,3) show ?thesis by (auto split: if_splits)
next
  case (Withdraw j)
  with assms(1) obtain paid where "withdraw e s j = Inr (s', paid)"
    by (cases "withdraw e s j") auto
  then obtain s1 where sel: "autoSelectWinner e s j = Inr s1"
    and upd: "updateState s1 j (msg_sender e) = Inr s'"
    by (rule withdraw_Inr)
  from autoSelectWinner_Inr[OF sel] assms(2,3)
  have "i < vaultCount s1 \<and> \<not> active (vaults s1 i)" by (auto split: if_splits)
  with updateState_Inr(1)[OF upd] show ?thesis by (auto split: if_splits)
next
  case (DeleteVault j)
  with assms(1) obtain paid where "deleteVault e s j = Inr (s', paid)"
    by (cases "deleteVault e s j") auto
  from deleteVault_Inr(3)[OF this] assms(2,3) show ?thesis by (auto split: if_splits)
next
  case FundContract
  with assms show ?thesis by (auto simp: fundContract_def split: if_splits)
next
  case (FundContractToken t a)
  with assms show ?thesis
    by (auto simp: fundContractToken_def split: if_splits call_outcome.splits)
next
  case Receive
  with assms show ?thesis by (simp add: receive_def)
next
  case (TransferOwnership a)
  with assms show ?thesis by (auto simp: transferOwnership_def split: if_splits)
next
  case RenounceOwnership
  with assms show ?thesis by (auto simp: renounceOwnership_def split: if_splits)
qed

lemma run_keeps_inactive:
  "i < vaultCount s \<Longrightarrow> \<not> active (vaults s i)
   \<Longrightarrow> i < vaultCount (run s h) \<and> \<not> active (vaults (run s h) i)"
proof (induction h arbitrary: s)
  case Nil
  then show ?case by simp
next
  case (Cons ec rest)
  obtain e c where ec: "ec = (e, c)" by (cases ec)
  show ?case
  proof (cases "step e s c")
    case (Inl err)
    with Cons ec show ?thesis by simp
  next
    case (Inr s1)
    from step_keeps_inactive[OF Inr Cons.prems]
    have "i < vaultCount s1" "\<not> active (vaults s1 i)" by simp_all
    from Cons.IH[OF this] Inr ec show ?thesis by simp
  qed
qed

lemma deleted_vault_stays_closed:
  assumes "reachable t s" and "deleteVault e s i = Inr (s', paid)"
  shows "deposit e' (run s' h) i x = Inl (Revert ''Vault is not active'')"
    and "withdraw e' (run s' h) i = Inl (Revert ''Vault inactive'')"
proof -
  from storage_inv_active[OF reachable_inv[OF assms(1)] deleteVault_Inr(2)[OF assms(2)]]
  have "i < vaultCount s" .
  with deleteVault_Inr(3)[OF assms(2)] have "i < vaultCount s'" "\<not> active (vaults s' i)"
    by simp_all
  from run_keeps_inactive[OF this, of h] have "\<not> active (vaults (run s' h) i)" by simp
  from inactive_rejects[OF this]
  show "deposit e' (run s' h) i x = Inl (Revert ''Vault is not active'')"
    and "withdraw e' (run s' h) i = Inl (Revert ''Vault inactive'')" .
qed

end
